theory Spec2Isabelle
  imports Complex_Main "HOL-Library.Word"
begin

unbundle bit_operations_syntax

section \<open>Machine types\<close>

text \<open>
  The embedding follows \<^verbatim>\<open>src/lib/dma-multi-spi.cc\<close>. Pin masks are 32-bit words
  (\<^verbatim>\<open>uint32_t\<close>), a payload byte is an 8-bit word and \<^verbatim>\<open>size_t\<close> is a 64-bit word (an
  LP64 target). A C \<^verbatim>\<open>int\<close> has 32 bits; its values are kept as mathematical integers
  inside that range: the return of \<^verbatim>\<open>bytes_to_gpio_ops\<close> converts a \<^verbatim>\<open>size_t\<close> to \<^verbatim>\<open>int\<close>
  and wraps modulo \<open>2 ^ 32\<close>, read as two's complement, and where an \<^verbatim>\<open>int\<close> computation
  of \<^verbatim>\<open>FinishRegistration\<close> would leave the range the model stops with a fault.
  Undefined behaviour of the C++ (a write outside the buffer, a shift by a negative or
  too large count, a null dereference) and a failed assertion are values of type
  \<open>fault\<close>; assertions are taken as compiled in.
\<close>

type_synonym uint32_t = "32 word"
type_synonym uint8_t = "8 word"
type_synonym size_t = "64 word"

datatype fault =
    Assert_failed
  | Null_deref
  | Out_of_bounds
  | Undefined_shift
  | Int_overflow
  | Alloc_failed
  | Uninitialised_read

section \<open>The timeline slot\<close>

text \<open>\<^verbatim>\<open>struct DMAMultiSPI::GPIOData\<close>; the field \<^verbatim>\<open>set\<close> is \<open>set_reg\<close> here.\<close>

record GPIOData =
  set_reg :: uint32_t
  ignored_upper_set_bits :: uint32_t
  reserved_area :: uint32_t
  clr :: uint32_t

definition sizeof_GPIOData :: nat where
  "sizeof_GPIOData = 16"

text \<open>\<^verbatim>\<open>offsetof(GPIOData, clr)\<close>: three \<^verbatim>\<open>uint32_t\<close> fields lie before \<^verbatim>\<open>clr\<close>.\<close>

definition offsetof_clr :: nat where
  "offsetof_clr = 3 * 4"

definition GPIOData_zero :: GPIOData where
  "GPIOData_zero = \<lparr>set_reg = 0, ignored_upper_set_bits = 0, reserved_area = 0, clr = 0\<rparr>"

text \<open>\<^verbatim>\<open>1 << gpio\<close>, stored into a \<^verbatim>\<open>uint32_t\<close>; callers check \<open>0 \<le> gpio \<le> 31\<close> first.\<close>

definition gpio_bit :: "int \<Rightarrow> uint32_t" where
  "gpio_bit gpio = push_bit (nat gpio) 1"

definition valid_shift :: "int \<Rightarrow> bool" where
  "valid_shift gpio = (0 \<le> gpio \<and> gpio \<le> 31)"

section \<open>The engine object\<close>

text \<open>
  \<^verbatim>\<open>class DMAMultiSPI\<close>. \<open>'g\<close> is the state of the pin-configuration collaborator
  \<^verbatim>\<open>ft::GPIO\<close>, whose code is not part of the sources; its \<^verbatim>\<open>AddOutput\<close> is a parameter
  of the operations that call it. \<open>gpio_shadow\<close> is the heap block behind the pointer
  \<^verbatim>\<open>gpio_shadow_\<close> (\<open>[]\<close> for the null pointer). \<^verbatim>\<open>gpio_buffer_size_\<close> is not initialised
  by the constructor: \<open>None\<close> until the first growth.
\<close>

record dma_cb =
  info :: "string list"
  src :: uint32_t
  dst :: uint32_t
  length_y :: int
  length_x :: nat
  stride_d :: int
  stride_s :: int
  next_cb :: "uint32_t option"

record 'g DMAMultiSPI =
  gpio :: 'g
  clock_gpio :: int
  serial_byte_size :: size_t
  alloced_mem :: "dma_cb list option"
  gpio_dma :: "GPIOData list option"
  gpio_shadow :: "GPIOData list"
  gpio_buffer_size :: "size_t option"

text \<open>
  The constructor: \<open>Init\<close> is the outcome of \<^verbatim>\<open>gpio_.Init()\<close> on the fresh collaborator;
  both assertions are branches.
\<close>

definition DMAMultiSPI_new ::
  "bool \<times> 'g \<Rightarrow> ('g \<Rightarrow> int \<Rightarrow> bool \<times> 'g) \<Rightarrow> int \<Rightarrow> fault + 'g DMAMultiSPI" where
  "DMAMultiSPI_new Init AddOutput clock =
     (if \<not> fst Init then Inl Assert_failed
      else if \<not> fst (AddOutput (snd Init) clock) then Inl Assert_failed
      else Inr \<lparr>gpio = snd (AddOutput (snd Init) clock), clock_gpio = clock,
                serial_byte_size = 0, alloced_mem = None, gpio_dma = None,
                gpio_shadow = [], gpio_buffer_size = None\<rparr>)"

section \<open>Slot count\<close>

text \<open>
  \<^verbatim>\<open>static int bytes_to_gpio_ops(size_t bytes) { return bytes * 8 * 2 + 1; }\<close>
  The arithmetic is \<^verbatim>\<open>size_t\<close> arithmetic; the return converts to \<^verbatim>\<open>int\<close>.
\<close>

definition bytes_to_gpio_ops :: "size_t \<Rightarrow> int" where
  "bytes_to_gpio_ops bytes = sint (ucast (bytes * 8 * 2 + 1) :: 32 word)"

section \<open>Channel registration\<close>

text \<open>
  \<^verbatim>\<open>realloc\<close>: a request above \<^verbatim>\<open>PTRDIFF_MAX\<close> fails, and the heap may refuse any other
  request. The heap is a parameter: for a request of \<open>sz\<close> bytes it answers \<open>None\<close> when it
  refuses, and otherwise the indeterminate content of the slots past the old block. The
  old content is kept up to the smaller of the two sizes. A null result is not checked
  by the caller: the \<^verbatim>\<open>bzero\<close> that follows writes through it.
\<close>

type_synonym heap = "size_t \<Rightarrow> (nat \<Rightarrow> GPIOData) option"

definition realloc_shadow :: "heap \<Rightarrow> GPIOData list \<Rightarrow> size_t \<Rightarrow> GPIOData list option" where
  "realloc_shadow hp old sz =
     (if 2 ^ 63 \<le> unat sz then None
      else case hp sz of
        None \<Rightarrow> None
      | Some junk \<Rightarrow>
          Some (map (\<lambda>i. if i < length old then old ! i else junk i)
                  [0 ..< unat sz div sizeof_GPIOData]))"

text \<open>
  \<^verbatim>\<open>bzero(gpio_shadow_ + start, n)\<close>, \<open>n\<close> in bytes (always a multiple of the slot size
  here). Zeroing outside the block is a fault.
\<close>

definition bzero_shadow :: "GPIOData list \<Rightarrow> int \<Rightarrow> size_t \<Rightarrow> GPIOData list option" where
  "bzero_shadow buf start n =
     (let cnt = unat n div sizeof_GPIOData in
      if 0 \<le> start \<and> nat start + cnt \<le> length buf
      then Some (take (nat start) buf @ replicate cnt GPIOData_zero @ drop (nat start + cnt) buf)
      else None)"

text \<open>
  \<^verbatim>\<open>for (int i = prev_gpio_end; i < gpio_operations; ++i)\<close>
  \<^verbatim>\<open>  if (i % 2 == 0) gpio_shadow_[i].clr = (1<<clock_gpio_);\<close>
  \<^verbatim>\<open>  else            gpio_shadow_[i].set = (1<<clock_gpio_);\<close>
\<close>

function clock_loop :: "int \<Rightarrow> int \<Rightarrow> int \<Rightarrow> GPIOData list \<Rightarrow> fault + GPIOData list" where
  "clock_loop clock i gpio_operations buf =
     (if i < gpio_operations then
        (if \<not> valid_shift clock then Inl Undefined_shift
         else if i < 0 \<or> int (length buf) \<le> i then Inl Out_of_bounds
         else clock_loop clock (i + 1) gpio_operations
                (buf[nat i := (if i mod 2 = 0
                               then (buf ! nat i)\<lparr>clr := gpio_bit clock\<rparr>
                               else (buf ! nat i)\<lparr>set_reg := gpio_bit clock\<rparr>)]))
      else Inr buf)"
  by pat_completeness auto
termination
  by (relation "measure (\<lambda>(clock, i, gpio_operations, buf). nat (gpio_operations - i))") auto

declare clock_loop.simps [simp del]

text \<open>The body of \<^verbatim>\<open>if (requested_bytes > serial_byte_size_) { ... }\<close>.\<close>

definition grow_timeline :: "heap \<Rightarrow> 'g DMAMultiSPI \<Rightarrow> size_t \<Rightarrow> fault + 'g DMAMultiSPI" where
  "grow_timeline hp s requested_bytes =
     (let prev_gpio_end = bytes_to_gpio_ops (serial_byte_size s) - 1;
          gpio_operations = bytes_to_gpio_ops requested_bytes;
          sz = (word_of_int gpio_operations :: size_t) * word_of_nat sizeof_GPIOData
      in case realloc_shadow hp (gpio_shadow s) sz of
           None \<Rightarrow> Inl Null_deref
         | Some buf \<Rightarrow>
            (case bzero_shadow buf prev_gpio_end
                    (word_of_int (gpio_operations - prev_gpio_end) * word_of_nat sizeof_GPIOData) of
               None \<Rightarrow> Inl Out_of_bounds
             | Some zbuf \<Rightarrow>
                (case clock_loop (clock_gpio s) prev_gpio_end gpio_operations zbuf of
                   Inl e \<Rightarrow> Inl e
                 | Inr pbuf \<Rightarrow>
                     Inr (s\<lparr>serial_byte_size := requested_bytes,
                            gpio_shadow := pbuf,
                            gpio_buffer_size := Some sz\<rparr>))))"

text \<open>
  \<^verbatim>\<open>bool DMAMultiSPI::RegisterDataGPIO(int gpio, size_t requested_bytes)\<close>: the assertion,
  the growth, and last the call of the collaborator, whose answer is the result.
\<close>

definition RegisterDataGPIO ::
  "('g \<Rightarrow> int \<Rightarrow> bool \<times> 'g) \<Rightarrow> heap \<Rightarrow> 'g DMAMultiSPI \<Rightarrow> int \<Rightarrow> size_t
     \<Rightarrow> fault + (bool \<times> 'g DMAMultiSPI)" where
  "RegisterDataGPIO AddOutput hp s gpio_nr requested_bytes =
     (if gpio_dma s \<noteq> None then Inl Assert_failed
      else case (if serial_byte_size s < requested_bytes
                 then grow_timeline hp s requested_bytes else Inr s) of
             Inl e \<Rightarrow> Inl e
           | Inr s1 \<Rightarrow>
               Inr (fst (AddOutput (gpio s1) gpio_nr),
                    s1\<lparr>gpio := snd (AddOutput (gpio s1) gpio_nr)\<rparr>))"

section \<open>Channel encoder\<close>

text \<open>
  \<^verbatim>\<open>for (uint8_t bit = 0x80; bit; bit >>= 1, buffer_pos += 2)\<close> with the body of
  \<^verbatim>\<open>SetBufferedByte\<close>; \<open>buffer_pos\<close> is the slot index the pointer stands at.
\<close>

definition set_pin :: "int \<Rightarrow> bool \<Rightarrow> GPIOData \<Rightarrow> GPIOData" where
  "set_pin data_gpio level slot =
     (if level
      then slot\<lparr>set_reg := set_reg slot OR gpio_bit data_gpio,
                clr := clr slot AND NOT (gpio_bit data_gpio)\<rparr>
      else slot\<lparr>set_reg := set_reg slot AND NOT (gpio_bit data_gpio),
                clr := clr slot OR gpio_bit data_gpio\<rparr>)"

function set_loop :: "int \<Rightarrow> uint8_t \<Rightarrow> uint8_t \<Rightarrow> nat \<Rightarrow> GPIOData list \<Rightarrow> fault + GPIOData list" where
  "set_loop data_gpio data bitv buffer_pos buf =
     (if bitv \<noteq> 0 then
        (if \<not> valid_shift data_gpio then Inl Undefined_shift
         else if length buf \<le> buffer_pos then Inl Out_of_bounds
         else set_loop data_gpio data (drop_bit 1 bitv) (buffer_pos + 2)
                (buf[buffer_pos := set_pin data_gpio (data AND bitv \<noteq> 0) (buf ! buffer_pos)]))
      else Inr buf)"
  by pat_completeness auto
termination
proof (relation "measure (\<lambda>(data_gpio, data, bitv, buffer_pos, buf). unat bitv)")
  show "wf (measure (\<lambda>(data_gpio, data, bitv, buffer_pos, buf). unat bitv))"
    by simp
next
  fix data_gpio :: int and data bitv :: uint8_t and buffer_pos :: nat and buf :: "GPIOData list"
  assume "bitv \<noteq> 0"
  then have "unat bitv \<noteq> 0"
    by (simp add: unat_eq_0)
  moreover have "unat (drop_bit 1 bitv) = unat bitv div 2"
    by (simp add: drop_bit_eq_div unat_div)
  ultimately have "unat (drop_bit 1 bitv) < unat bitv"
    by simp
  then show "((data_gpio, data, drop_bit 1 bitv, buffer_pos + 2,
               buf[buffer_pos := set_pin data_gpio (data AND bitv \<noteq> 0) (buf ! buffer_pos)]),
              (data_gpio, data, bitv, buffer_pos, buf))
             \<in> measure (\<lambda>(data_gpio, data, bitv, buffer_pos, buf). unat bitv)"
    by simp
qed

declare set_loop.simps [simp del]

text \<open>\<^verbatim>\<open>void DMAMultiSPI::SetBufferedByte(int data_gpio, size_t pos, uint8_t data)\<close>.\<close>

definition SetBufferedByte ::
  "'g DMAMultiSPI \<Rightarrow> int \<Rightarrow> size_t \<Rightarrow> uint8_t \<Rightarrow> fault + 'g DMAMultiSPI" where
  "SetBufferedByte s data_gpio pos data =
     (if \<not> pos < serial_byte_size s then Inl Assert_failed
      else case set_loop data_gpio data 0x80 (unat (2 * 8 * pos)) (gpio_shadow s) of
             Inl e \<Rightarrow> Inl e
           | Inr buf \<Rightarrow> Inr (s\<lparr>gpio_shadow := buf\<rparr>))"

section \<open>Descriptor builder\<close>

text \<open>
  The header \<^verbatim>\<open>rpi-dma.h\<close> is not part of the sources. What \<^verbatim>\<open>FinishRegistration\<close> takes
  from it is a parameter: the size of \<^verbatim>\<open>struct dma_cb\<close>, whether
  \<^verbatim>\<open>UncachedMemBlock_alloc\<close> delivers a block of the requested size, the indeterminate
  content of the fresh block's slot area, and \<^verbatim>\<open>UncachedMemBlock_to_physical\<close> as a
  function of the byte offset into the block. The bit-packing macros are not applied: a
  control block keeps the operands of \<^verbatim>\<open>DMA_CB_TXFR_LEN_YLENGTH\<close>, \<^verbatim>\<open>DMA_CB_TXFR_LEN_XLENGTH\<close>,
  \<^verbatim>\<open>DMA_CB_STRIDE_D_STRIDE\<close> and \<^verbatim>\<open>DMA_CB_STRIDE_S_STRIDE\<close> in \<open>length_y\<close>, \<open>length_x\<close>,
  \<open>stride_d\<close> and \<open>stride_s\<close>, and the names of the flags or-ed into \<open>info\<close>; \<open>next_cb\<close> is
  \<open>None\<close> while the field \<^verbatim>\<open>next\<close> has not been written. The mapping of the register
  window of the DMA engine (\<^verbatim>\<open>ft::mmap_bcm_register\<close>) is left out: the channel registers
  appear only in the actions of the transfer driver.
\<close>

record platform =
  sizeof_dma_cb :: nat
  UncachedMemBlock_alloc :: "int \<Rightarrow> bool"
  uncached_fill :: "nat \<Rightarrow> GPIOData"
  UncachedMemBlock_to_physical :: "int \<Rightarrow> uint32_t"

definition GPIO_REGISTER_BASE :: uint32_t where
  "GPIO_REGISTER_BASE = 0x200000"

definition GPIO_SET_OFFSET :: uint32_t where
  "GPIO_SET_OFFSET = 0x1C"

definition GPIO_CLR_OFFSET :: uint32_t where
  "GPIO_CLR_OFFSET = 0x28"

definition PHYSICAL_GPIO_BUS :: uint32_t where
  "PHYSICAL_GPIO_BUS = 0x7E000000 + GPIO_REGISTER_BASE"

text \<open>\<^verbatim>\<open>const int kMaxOpsPerBlock = (2<<15) / sizeof(GPIOData);\<close>\<close>

definition kMaxOpsPerBlock :: int where
  "kMaxOpsPerBlock = push_bit 15 2 div int sizeof_GPIOData"

text \<open>C's division of \<^verbatim>\<open>int\<close> truncates towards zero.\<close>

definition c_div :: "int \<Rightarrow> int \<Rightarrow> int" where
  "c_div a b = sgn a * sgn b * (\<bar>a\<bar> div \<bar>b\<bar>)"

text \<open>
  The loop \<^verbatim>\<open>for (int i = 0; i < control_blocks; ++i)\<close>. The control blocks written so
  far are the list \<open>cbs\<close> (block \<open>i\<close> lies at byte offset \<open>i * sizeof(dma_cb)\<close>);
  \<open>previous\<close> is the index of the block the pointer \<^verbatim>\<open>previous\<close> stands at; \<open>start_gpio\<close>
  counts slots from \<^verbatim>\<open>gpio_dma_\<close>, which lies behind the control blocks.
\<close>

function chain_loop ::
  "platform \<Rightarrow> int \<Rightarrow> int \<Rightarrow> nat option \<Rightarrow> int \<Rightarrow> int \<Rightarrow> dma_cb list \<Rightarrow> dma_cb list" where
  "chain_loop P control_blocks i previous start_gpio remaining cbs =
     (if i < control_blocks then
        (let cbs1 = (case previous of
                       None \<Rightarrow> cbs
                     | Some p \<Rightarrow>
                         cbs[p := (cbs ! p)\<lparr>next_cb :=
                           Some (UncachedMemBlock_to_physical P (i * int (sizeof_dma_cb P)))\<rparr>]);
             n = (if remaining > kMaxOpsPerBlock then kMaxOpsPerBlock else remaining);
             cb = \<lparr>info = [''DMA_CB_TI_SRC_INC'', ''DMA_CB_TI_DEST_INC'',
                          ''DMA_CB_TI_NO_WIDE_BURSTS'', ''DMA_CB_TI_TDMODE''],
                   src = UncachedMemBlock_to_physical P
                           (control_blocks * int (sizeof_dma_cb P)
                            + start_gpio * int sizeof_GPIOData),
                   dst = PHYSICAL_GPIO_BUS + GPIO_SET_OFFSET,
                   length_y = n,
                   length_x = sizeof_GPIOData,
                   stride_d = - 16,
                   stride_s = 0,
                   next_cb = None\<rparr>
         in chain_loop P control_blocks (i + 1) (Some (length cbs1)) (start_gpio + n)
              (remaining - n) (cbs1 @ [cb]))
      else cbs)"
  by pat_completeness auto
termination
  by (relation "measure (\<lambda>(P, control_blocks, i, previous, start_gpio, remaining, cbs).
                           nat (control_blocks - i))") auto

declare chain_loop.simps [simp del]

text \<open>
  \<^verbatim>\<open>void DMAMultiSPI::FinishRegistration()\<close>. The sum \<^verbatim>\<open>gpio_operations + kMaxOpsPerBlock - 1\<close>
  is \<^verbatim>\<open>int\<close> arithmetic and \<^verbatim>\<open>alloc_size\<close> is an \<^verbatim>\<open>int\<close>: where one of them leaves the range
  the model stops. With no control block the final \<^verbatim>\<open>cb->next = 0\<close> writes through the
  null pointer.
\<close>

definition FinishRegistration :: "platform \<Rightarrow> 'g DMAMultiSPI \<Rightarrow> fault + 'g DMAMultiSPI" where
  "FinishRegistration P s =
     (if alloced_mem s \<noteq> None then Inl Assert_failed
      else
        let gpio_operations = bytes_to_gpio_ops (serial_byte_size s) in
        if 2 ^ 31 \<le> gpio_operations + kMaxOpsPerBlock - 1 then Inl Int_overflow
        else
          let control_blocks = c_div (gpio_operations + kMaxOpsPerBlock - 1) kMaxOpsPerBlock;
              alloc_size = control_blocks * int (sizeof_dma_cb P)
                           + gpio_operations * int sizeof_GPIOData
          in if alloc_size < 0 \<or> 2 ^ 31 \<le> alloc_size then Inl Int_overflow
             else if \<not> UncachedMemBlock_alloc P alloc_size then Inl Alloc_failed
             else if control_blocks \<le> 0 then Inl Null_deref
             else
               let cbs = chain_loop P control_blocks 0 None 0 gpio_operations []
               in Inr (s\<lparr>alloced_mem := Some (cbs[length cbs - 1 := (last cbs)\<lparr>next_cb := Some 0\<rparr>]),
                         gpio_dma := Some (map (uncached_fill P) [0 ..< nat gpio_operations])\<rparr>))"

section \<open>Transfer driver\<close>

text \<open>
  The register constants of the DMA engine come from \<^verbatim>\<open>rpi-dma.h\<close> and are parameters.
  The driver's accesses to the channel registers and its sleeps are recorded as a list
  of actions: \<open>Cs_or m\<close> is \<^verbatim>\<open>cs |= m\<close>, \<open>Cs_and m\<close> is \<^verbatim>\<open>cs &= m\<close>, \<open>Cs_write v\<close> is
  \<^verbatim>\<open>cs = v\<close>. What the hardware answers when the poll loop reads \<^verbatim>\<open>cs\<close> is the stream
  \<open>cs_reads\<close>.
\<close>

record dma_consts =
  DMA_CS_END :: uint32_t
  DMA_CS_ACTIVE :: uint32_t
  DMA_CS_ERROR :: uint32_t
  DMA_CS_ABORT :: uint32_t
  DMA_CS_RESET :: uint32_t
  DMA_CS_DISDEBUG :: uint32_t
  DMA_CS_PRIORITY :: "int \<Rightarrow> uint32_t"
  DMA_CS_PANIC_PRIORITY :: "int \<Rightarrow> uint32_t"

datatype dma_action =
    Cs_or uint32_t
  | Cs_and uint32_t
  | Cs_write uint32_t
  | Cblock_write uint32_t
  | Usleep nat

datatype poll_exit = Completed | Errored

text \<open>
  \<^verbatim>\<open>while ((dma_channel_->cs & DMA_CS_ACTIVE) && !(dma_channel_->cs & DMA_CS_ERROR)) usleep(10);\<close>
  The condition reads the register once, and a second time when the first reading has
  the active bit. The loop has no bound: it returns nothing when no reading ends it.
  Its result is the reason of the exit and the number of sleeps.
\<close>

partial_function (option) poll_loop ::
  "dma_consts \<Rightarrow> (nat \<Rightarrow> uint32_t) \<Rightarrow> nat \<Rightarrow> nat \<Rightarrow> (poll_exit \<times> nat) option" where
  "poll_loop K cs_reads k sleeps =
     (if cs_reads k AND DMA_CS_ACTIVE K = 0 then Some (Completed, sleeps)
      else if cs_reads (k + 1) AND DMA_CS_ERROR K \<noteq> 0 then Some (Errored, sleeps)
      else poll_loop K cs_reads (k + 2) (sleeps + 1))"

text \<open>\<^verbatim>\<open>memcpy(gpio_dma_, gpio_shadow_, gpio_buffer_size_)\<close>.\<close>

definition memcpy_dma :: "'g DMAMultiSPI \<Rightarrow> fault + 'g DMAMultiSPI" where
  "memcpy_dma s =
     (case gpio_buffer_size s of
        None \<Rightarrow> Inl Uninitialised_read
      | Some sz \<Rightarrow>
         (case gpio_dma s of
            None \<Rightarrow> Inl Null_deref
          | Some d \<Rightarrow>
              (let n = unat sz div sizeof_GPIOData in
               if n \<le> length (gpio_shadow s) \<and> n \<le> length d
               then Inr (s\<lparr>gpio_dma := Some (take n (gpio_shadow s) @ drop n d)\<rparr>)
               else Inl Out_of_bounds)))"

definition start_actions :: "platform \<Rightarrow> dma_consts \<Rightarrow> dma_action list" where
  "start_actions P K =
     [Cs_or (DMA_CS_END K),
      Cblock_write (UncachedMemBlock_to_physical P 0),
      Cs_write (DMA_CS_PRIORITY K 7 OR DMA_CS_PANIC_PRIORITY K 7 OR DMA_CS_DISDEBUG K),
      Cs_or (DMA_CS_ACTIVE K)]"

definition teardown_actions :: "dma_consts \<Rightarrow> dma_action list" where
  "teardown_actions K =
     [Cs_or (DMA_CS_ABORT K),
      Usleep 100,
      Cs_and (NOT (DMA_CS_ACTIVE K)),
      Cs_or (DMA_CS_RESET K)]"

text \<open>
  \<^verbatim>\<open>void DMAMultiSPI::SendBuffers()\<close>. The result is \<open>None\<close> when the poll loop does not
  end; otherwise a fault, or the actions performed and the engine object afterwards.
  The function returns \<^verbatim>\<open>void\<close>: there is no result value beside these.
\<close>

definition SendBuffers ::
  "platform \<Rightarrow> dma_consts \<Rightarrow> (nat \<Rightarrow> uint32_t) \<Rightarrow> 'g DMAMultiSPI
     \<Rightarrow> (fault + dma_action list \<times> 'g DMAMultiSPI) option" where
  "SendBuffers P K cs_reads s =
     (case (if gpio_dma s = None then FinishRegistration P s else Inr s) of
        Inl e \<Rightarrow> Some (Inl e)
      | Inr s1 \<Rightarrow>
         (case memcpy_dma s1 of
            Inl e \<Rightarrow> Some (Inl e)
          | Inr s2 \<Rightarrow>
             (case poll_loop K cs_reads 0 0 of
                None \<Rightarrow> None
              | Some (ex, sleeps) \<Rightarrow>
                  Some (Inr (start_actions P K @ replicate sleeps (Usleep 10)
                             @ teardown_actions K, s2)))))"

section \<open>Reachable engine states\<close>

text \<open>
  The states an engine object goes through: constructed, then any sequence of
  registrations, of encodings on a data pin other than the clock pin, and of sends,
  each of which returned.
\<close>

inductive reachable :: "('g \<Rightarrow> int \<Rightarrow> bool \<times> 'g) \<Rightarrow> 'g DMAMultiSPI \<Rightarrow> bool"
  for AddOutput :: "'g \<Rightarrow> int \<Rightarrow> bool \<times> 'g" where
  constructed:
    "DMAMultiSPI_new Init AddOutput clock = Inr s \<Longrightarrow> reachable AddOutput s"
| registered:
    "reachable AddOutput s \<Longrightarrow> RegisterDataGPIO AddOutput hp s gpio_nr requested_bytes = Inr (ok, s')
       \<Longrightarrow> reachable AddOutput s'"
| encoded:
    "reachable AddOutput s \<Longrightarrow> data_gpio \<noteq> clock_gpio s
       \<Longrightarrow> SetBufferedByte s data_gpio pos data = Inr s' \<Longrightarrow> reachable AddOutput s'"
| sent:
    "reachable AddOutput s \<Longrightarrow> SendBuffers P K cs_reads s = Some (Inr (acts, s'))
       \<Longrightarrow> reachable AddOutput s'"

section \<open>Properties of the timeline\<close>

text \<open>A slot that carries the clock pre-pattern of its index and nothing else.\<close>

definition clock_slot :: "int \<Rightarrow> nat \<Rightarrow> GPIOData" where
  "clock_slot c i = (if even i then GPIOData_zero\<lparr>clr := gpio_bit c\<rparr>
                     else GPIOData_zero\<lparr>set_reg := gpio_bit c\<rparr>)"

text \<open>
  The clock pre-pattern: every even slot clears the clock pin, every odd slot sets it.
\<close>

definition clock_ok :: "'g DMAMultiSPI \<Rightarrow> bool" where
  "clock_ok s = (\<forall>i < length (gpio_shadow s).
      if even i then bit (clr (gpio_shadow s ! i)) (nat (clock_gpio s))
      else bit (set_reg (gpio_shadow s ! i)) (nat (clock_gpio s)))"

text \<open>No slot has a common bit in its two masks.\<close>

definition masks_disjoint :: "'g DMAMultiSPI \<Rightarrow> bool" where
  "masks_disjoint s = (\<forall>i < length (gpio_shadow s).
      set_reg (gpio_shadow s ! i) AND clr (gpio_shadow s ! i) = 0)"

text \<open>
  What every reachable engine state satisfies: the timeline is empty while nothing has
  been registered and has \<^verbatim>\<open>bytes_to_gpio_ops(serial_byte_size_)\<close> slots afterwards, the
  clock pin is a valid shift count once there is a slot, the last slot is the bare
  clock pre-pattern, and the two properties above.
\<close>

definition timeline_inv :: "'g DMAMultiSPI \<Rightarrow> bool" where
  "timeline_inv s =
     ((serial_byte_size s = 0 \<longrightarrow> gpio_shadow s = []) \<and>
      (serial_byte_size s \<noteq> 0 \<longrightarrow>
         length (gpio_shadow s) = nat (bytes_to_gpio_ops (serial_byte_size s))) \<and>
      (gpio_shadow s \<noteq> [] \<longrightarrow> valid_shift (clock_gpio s)) \<and>
      (gpio_shadow s \<noteq> [] \<longrightarrow>
         last (gpio_shadow s) = clock_slot (clock_gpio s) (length (gpio_shadow s) - 1)) \<and>
      clock_ok s \<and> masks_disjoint s)"

section \<open>A concrete engine\<close>

text \<open>
  A pin-configuration collaborator that accepts the pins 0 to 27 once each, a heap
  that serves every request with all-ones memory, the engine constructed with clock pin
  18, and the same engine after registering pin 23 with one byte.
\<close>

definition ex_AddOutput :: "int list \<Rightarrow> int \<Rightarrow> bool \<times> int list" where
  "ex_AddOutput g p = (if 0 \<le> p \<and> p \<le> 27 \<and> p \<notin> set g then (True, p # g) else (False, g))"

definition ex_heap :: heap where
  "ex_heap sz = Some (\<lambda>i. \<lparr>set_reg = 0xFFFFFFFF, ignored_upper_set_bits = 0xFFFFFFFF,
                             reserved_area = 0xFFFFFFFF, clr = 0xFFFFFFFF\<rparr>)"

definition engine0 :: "int list DMAMultiSPI" where
  "engine0 = \<lparr>gpio = [18], clock_gpio = 18, serial_byte_size = 0, alloced_mem = None,
               gpio_dma = None, gpio_shadow = [], gpio_buffer_size = None\<rparr>"

definition engine1 :: "int list DMAMultiSPI" where
  "engine1 = \<lparr>gpio = [23, 18], clock_gpio = 18, serial_byte_size = 1, alloced_mem = None,
               gpio_dma = None, gpio_shadow = map (clock_slot 18) [0 ..< 17],
               gpio_buffer_size = Some 272\<rparr>"

text \<open>
  A platform for the concrete engine: control blocks of 32 bytes, an allocator that
  serves every request, and a block that lies at bus address \<open>0xC0000000\<close>.
\<close>

definition ex_platform :: platform where
  "ex_platform = \<lparr>sizeof_dma_cb = 32, UncachedMemBlock_alloc = (\<lambda>n. True),
                   uncached_fill = (\<lambda>i. GPIOData_zero),
                   UncachedMemBlock_to_physical = (\<lambda>off. 0xC0000000 + word_of_int off)\<rparr>"

text \<open>
  Register constants for the concrete engine (the bit positions of the BCM2835 DMA
  control and status register), a hardware that reports completion at the first read,
  and one that stays active and reports an error at the second read.
\<close>

definition ex_consts :: dma_consts where
  "ex_consts = \<lparr>DMA_CS_END = 0x2, DMA_CS_ACTIVE = 0x1, DMA_CS_ERROR = 0x100,
                 DMA_CS_ABORT = 0x40000000, DMA_CS_RESET = 0x80000000,
                 DMA_CS_DISDEBUG = 0x20000000,
                 DMA_CS_PRIORITY = (\<lambda>x. push_bit 16 (word_of_int x AND 0xF)),
                 DMA_CS_PANIC_PRIORITY = (\<lambda>x. push_bit 20 (word_of_int x AND 0xF))\<rparr>"

definition reads_completed :: "nat \<Rightarrow> uint32_t" where
  "reads_completed k = 0x2"

definition reads_errored :: "nat \<Rightarrow> uint32_t" where
  "reads_errored k = 0x101"

section \<open>Slot count and memory operations\<close>

lemma ops_in_range:
  assumes "16 * unat b + 1 < 2 ^ 31"
  shows "bytes_to_gpio_ops b = int (16 * unat b + 1)"
proof -
  define n where "n = 16 * unat b + 1"
  have n: "n < 2 ^ 31"
    using assms by (simp add: n_def)
  have "unat (b * 8 * 2 + 1) = n"
    using assms by (simp add: unat_word_ariths n_def)
  then have "uint (b * 8 * 2 + 1 :: size_t) = int n"
    by (metis uint_nat)
  moreover have "signed_take_bit 31 (int n) = int n"
    by (rule signed_take_bit_int_eq_self) (use n in auto)
  ultimately have "bytes_to_gpio_ops b = int n"
    by (simp only: bytes_to_gpio_ops_def signed_ucast_eq) simp
  then show ?thesis
    by (simp only: n_def)
qed

lemma ops_bounds: "- (2 ^ 31) \<le> bytes_to_gpio_ops b" "bytes_to_gpio_ops b < 2 ^ 31"
  using sint_ge[of "ucast (b * 8 * 2 + 1) :: 32 word"] sint_lt[of "ucast (b * 8 * 2 + 1) :: 32 word"]
  by (simp_all add: bytes_to_gpio_ops_def)

lemma ops_zero: "bytes_to_gpio_ops 0 = 1"
  by (simp add: bytes_to_gpio_ops_def)

lemma mod16_shift: "(x + 16 * k) mod 16 = x mod (16::int)"
  by simp

lemma stb_mod16: "signed_take_bit 31 (v::int) mod 16 = v mod 16"
proof -
  define w where "w = (v + 2 ^ 31) mod 2 ^ 32"
  have e: "signed_take_bit 31 v = w - 2 ^ 31"
    by (simp add: signed_take_bit_eq_take_bit_shift take_bit_eq_mod w_def)
  have "w mod 16 = (v + 2 ^ 31) mod 16"
    unfolding w_def by (rule mod_mod_cancel) simp
  also have "\<dots> = (v + 16 * 134217728) mod 16"
    by simp
  also have "\<dots> = v mod 16"
    by (rule mod16_shift)
  finally have w: "w mod 16 = v mod 16" .
  have "(w - 2 ^ 31) mod 16 = (w + 16 * (- 134217728)) mod 16"
    by simp
  also have "\<dots> = w mod 16"
    by (rule mod16_shift)
  finally show ?thesis
    by (simp only: e w)
qed

lemma uint_mod16: "uint (b * 8 * 2 + 1 :: size_t) mod 16 = 1"
proof -
  have "uint (b * 8 * 2 + 1 :: size_t) = (uint b * 16 + 1) mod 2 ^ 64"
    by (simp add: uint_word_ariths mod_simps mult.commute)
  then have "uint (b * 8 * 2 + 1 :: size_t) mod 16 = (uint b * 16 + 1) mod 2 ^ 64 mod 16"
    by simp
  also have "\<dots> = (uint b * 16 + 1) mod 16"
    by (rule mod_mod_cancel) simp
  also have "\<dots> = 1"
    by simp
  finally show ?thesis .
qed

lemma ops_mod16: "bytes_to_gpio_ops b mod 16 = 1"
  unfolding bytes_to_gpio_ops_def signed_ucast_eq
  using stb_mod16[of "uint (b * 8 * 2 + 1)"] uint_mod16[of b] by simp

lemma encode_pos_mod16: "unat (2 * 8 * pos :: size_t) mod 16 = 0"
proof -
  have "unat (2 * 8 * pos :: size_t) = (16 * unat pos) mod 2 ^ 64"
    by (simp add: unat_word_ariths)
  then have "unat (2 * 8 * pos :: size_t) mod 16 = (16 * unat pos) mod 2 ^ 64 mod 16"
    by simp
  also have "\<dots> = (16 * unat pos) mod 16"
    by (rule mod_mod_cancel) simp
  also have "\<dots> = 0"
    by simp
  finally show ?thesis .
qed

lemma slots_bytes_word:
  "(word_of_int k * word_of_nat sizeof_GPIOData :: size_t) = word_of_int (16 * k)"
  by (simp add: sizeof_GPIOData_def)

lemma unat_word_of_int_64: "unat (word_of_int m :: size_t) = nat (m mod 2 ^ 64)"
  by (simp add: unat_eq_nat_uint uint_word_of_int take_bit_eq_mod)

lemma mod_64_neg:
  assumes "- (2 ^ 34) < k" "k < 0"
  shows "(16 * k) mod 2 ^ 64 = 2 ^ 64 + 16 * (k::int)"
proof -
  have "(16 * k + 2 ^ 64) mod 2 ^ 64 = 16 * k + 2 ^ 64"
    by (rule mod_pos_pos_trivial) (use assms in auto)
  then show ?thesis by (simp add: add.commute)
qed

lemma mod_64_pos: "k < 2 ^ 34 \<Longrightarrow> 0 \<le> k \<Longrightarrow> (16 * k) mod 2 ^ 64 = 16 * (k::int)"
  by (rule mod_pos_pos_trivial) auto

lemma unat_slots_bytes_pos:
  assumes "0 \<le> k" "k < 2 ^ 34"
  shows "unat (word_of_int k * word_of_nat sizeof_GPIOData :: size_t) = nat (16 * k)"
  by (simp only: slots_bytes_word unat_word_of_int_64 mod_64_pos[OF assms(2,1)])

lemma unat_slots_bytes_neg:
  assumes "- (2 ^ 34) < k" "k < 0"
  shows "unat (word_of_int k * word_of_nat sizeof_GPIOData :: size_t) = nat (2 ^ 64 + 16 * k)"
  by (simp only: slots_bytes_word unat_word_of_int_64 mod_64_neg[OF assms])

lemma clock_loop_Inr:
  "clock_loop c i n buf = Inr r \<Longrightarrow>
     length r = length buf \<and>
     (\<forall>j < length buf. r ! j =
        (if i \<le> int j \<and> int j < n
         then (if even j then (buf ! j)\<lparr>clr := gpio_bit c\<rparr> else (buf ! j)\<lparr>set_reg := gpio_bit c\<rparr>)
         else buf ! j))"
proof (induction c i n buf arbitrary: r rule: clock_loop.induct)
  case (1 clock i gpio_operations buf)
  show ?case
  proof (cases "i < gpio_operations")
    case False
    with "1.prems" show ?thesis by (subst (asm) clock_loop.simps) auto
  next
    case True
    with "1.prems" have "valid_shift clock \<and> 0 \<le> i \<and> i < int (length buf)"
      by (subst (asm) clock_loop.simps) (auto split: if_splits)
    then have v: "valid_shift clock" and b: "0 \<le> i" "i < int (length buf)"
      by simp_all
    let ?buf' = "buf[nat i := (if i mod 2 = 0
                               then (buf ! nat i)\<lparr>clr := gpio_bit clock\<rparr>
                               else (buf ! nat i)\<lparr>set_reg := gpio_bit clock\<rparr>)]"
    from True v b "1.prems" have rec: "clock_loop clock (i + 1) gpio_operations ?buf' = Inr r"
      by (subst (asm) clock_loop.simps) (simp split: if_splits)
    from "1.IH"[OF True _ _ rec] v b
    have IH: "length r = length ?buf'"
      "\<And>j. j < length ?buf' \<Longrightarrow> r ! j =
        (if i + 1 \<le> int j \<and> int j < gpio_operations
         then (if even j then (?buf' ! j)\<lparr>clr := gpio_bit clock\<rparr> else (?buf' ! j)\<lparr>set_reg := gpio_bit clock\<rparr>)
         else ?buf' ! j)"
      by auto
    have par: "(i mod 2 = 0) = even (nat i)"
      using b by (metis even_nat_iff even_iff_mod_2_eq_zero)
    show ?thesis
    proof (intro conjI allI impI)
      show "length r = length buf" using IH(1) by simp
    next
      fix j assume j: "j < length buf"
      then have "j < length ?buf'" by simp
      note IH(2)[OF this]
      then show "r ! j =
        (if i \<le> int j \<and> int j < gpio_operations
         then (if even j then (buf ! j)\<lparr>clr := gpio_bit clock\<rparr> else (buf ! j)\<lparr>set_reg := gpio_bit clock\<rparr>)
         else buf ! j)"
        using b True j par
        by (cases "j = nat i") (auto simp: nth_list_update)
    qed
  qed
qed

lemma realloc_Some:
  assumes "realloc_shadow hp old (word_of_int ops * word_of_nat sizeof_GPIOData) = Some buf"
    and "- (2 ^ 31) \<le> ops" "ops < 2 ^ 31"
  shows "0 \<le> ops" "length buf = nat ops" "\<And>j. j < nat ops \<Longrightarrow> j < length old \<Longrightarrow> buf ! j = old ! j"
proof -
  show nonneg: "0 \<le> ops"
  proof (rule ccontr)
    assume "\<not> 0 \<le> ops"
    then have "unat (word_of_int ops * word_of_nat sizeof_GPIOData :: size_t) = nat (2 ^ 64 + 16 * ops)"
      using assms(2) by (intro unat_slots_bytes_neg) auto
    moreover have "(2::nat) ^ 63 \<le> nat (2 ^ 64 + 16 * ops)"
      using assms(2) by auto
    ultimately show False
      using assms(1) by (simp add: realloc_shadow_def)
  qed
  then have u: "unat (word_of_int ops * word_of_nat sizeof_GPIOData :: size_t) = nat (16 * ops)"
    using assms(3) by (intro unat_slots_bytes_pos) auto
  have d: "nat (16 * ops) div sizeof_GPIOData = nat ops"
    using nonneg by (simp add: sizeof_GPIOData_def nat_mult_distrib)
  from assms(1) obtain junk where
    buf: "buf = map (\<lambda>i. if i < length old then old ! i else junk i) [0 ..< nat ops]"
    by (auto simp: realloc_shadow_def u d split: if_splits option.splits)
  show "length buf = nat ops" by (simp add: buf)
  show "\<And>j. j < nat ops \<Longrightarrow> j < length old \<Longrightarrow> buf ! j = old ! j"
    by (simp add: buf)
qed

lemma bzero_Some:
  assumes "bzero_shadow buf pe (word_of_int d * word_of_nat sizeof_GPIOData) = Some z"
    and "- (2 ^ 34) < d" "d < 2 ^ 34" "length buf < 2 ^ 31"
  shows "0 \<le> pe" "0 \<le> d" "nat pe + nat d \<le> length buf"
    "z = take (nat pe) buf @ replicate (nat d) GPIOData_zero @ drop (nat pe + nat d) buf"
proof -
  show nonneg: "0 \<le> d"
  proof (rule ccontr)
    assume neg: "\<not> 0 \<le> d"
    then have "unat (word_of_int d * word_of_nat sizeof_GPIOData :: size_t) = nat (2 ^ 64 + 16 * d)"
      using assms(2) by (intro unat_slots_bytes_neg) auto
    moreover have "(2::nat) ^ 31 \<le> nat (2 ^ 64 + 16 * d) div sizeof_GPIOData"
      using assms(2) by (simp add: sizeof_GPIOData_def)
    ultimately show False
      using assms(1,4) by (simp add: bzero_shadow_def Let_def split: if_splits)
  qed
  then have u: "unat (word_of_int d * word_of_nat sizeof_GPIOData :: size_t) = nat (16 * d)"
    using assms(3) by (intro unat_slots_bytes_pos) auto
  have dd: "nat (16 * d) div sizeof_GPIOData = nat d"
    using nonneg by (simp add: sizeof_GPIOData_def nat_mult_distrib)
  from assms(1) show "0 \<le> pe" "nat pe + nat d \<le> length buf"
    "z = take (nat pe) buf @ replicate (nat d) GPIOData_zero @ drop (nat pe + nat d) buf"
    by (auto simp: bzero_shadow_def Let_def u dd split: if_splits)
qed

lemma grow_timeline_Inr:
  assumes g: "grow_timeline hp s n = Inr s'"
    and old: "bytes_to_gpio_ops (serial_byte_size s) - 1 \<le> int (length (gpio_shadow s))"
  defines "pe \<equiv> bytes_to_gpio_ops (serial_byte_size s) - 1"
    and "ops \<equiv> bytes_to_gpio_ops n"
  shows "0 \<le> pe" "pe \<le> ops"
    "length (gpio_shadow s') = nat ops"
    "\<And>j. j < nat pe \<Longrightarrow> gpio_shadow s' ! j = gpio_shadow s ! j"
    "\<And>j. nat pe \<le> j \<Longrightarrow> j < nat ops \<Longrightarrow> gpio_shadow s' ! j = clock_slot (clock_gpio s) j"
    "pe < ops \<Longrightarrow> valid_shift (clock_gpio s)"
    "serial_byte_size s' = n" "clock_gpio s' = clock_gpio s" "gpio_dma s' = gpio_dma s"
    "alloced_mem s' = alloced_mem s" "gpio s' = gpio s"
    "gpio_buffer_size s' = Some (word_of_int ops * word_of_nat sizeof_GPIOData)"
    "s' = s\<lparr>serial_byte_size := n, gpio_shadow := gpio_shadow s',
            gpio_buffer_size := Some (word_of_int ops * word_of_nat sizeof_GPIOData)\<rparr>"
    "pe < ops"
proof -
  let ?sz = "word_of_int ops * word_of_nat sizeof_GPIOData :: size_t"
  let ?n = "word_of_int (ops - pe) * word_of_nat sizeof_GPIOData :: size_t"
  obtain buf where r: "realloc_shadow hp (gpio_shadow s) ?sz = Some buf"
    using g by (cases "realloc_shadow hp (gpio_shadow s) ?sz")
      (simp_all add: grow_timeline_def Let_def pe_def ops_def)
  obtain zbuf where z: "bzero_shadow buf pe ?n = Some zbuf"
    using g r by (cases "bzero_shadow buf pe ?n")
      (simp_all add: grow_timeline_def Let_def pe_def ops_def)
  obtain pbuf where c: "clock_loop (clock_gpio s) pe ops zbuf = Inr pbuf"
    using g r z by (cases "clock_loop (clock_gpio s) pe ops zbuf")
      (simp_all add: grow_timeline_def Let_def pe_def ops_def)
  have s': "s' = s\<lparr>serial_byte_size := n, gpio_shadow := pbuf, gpio_buffer_size := Some ?sz\<rparr>"
    using g r z c by (simp add: grow_timeline_def Let_def pe_def ops_def)
  have ob: "- (2 ^ 31) \<le> ops" "ops < 2 ^ 31" and pb: "- (2 ^ 31) \<le> pe + 1" "pe + 1 < 2 ^ 31"
    using ops_bounds by (simp_all add: ops_def pe_def)
  note R = realloc_Some[OF r ob]
  have lb: "length buf < 2 ^ 31"
    using R(1,2) ob(2) by simp
  have db: "- (2 ^ 34) < ops - pe" "ops - pe < 2 ^ 34"
    using ob pb by simp_all
  note Z = bzero_Some[OF z db lb]
  show "0 \<le> pe" by (rule Z(1))
  show le: "pe \<le> ops" using Z(2) by simp
  have lz: "length zbuf = nat ops"
    using Z R(1,2) by simp
  have zj: "zbuf ! j = (if j < nat pe then buf ! j else GPIOData_zero)" if "j < nat ops" for j
  proof -
    have "nat pe + nat (ops - pe) = nat ops" using Z(1,2) by simp
    then show ?thesis
      using that Z(3) R(2) by (simp add: Z(4) nth_append)
  qed
  note C = clock_loop_Inr[OF c]
  show "length (gpio_shadow s') = nat ops"
    using C lz by (simp add: s')
  show "gpio_shadow s' ! j = gpio_shadow s ! j" if "j < nat pe" for j
  proof -
    have j: "j < nat ops" "j < length (gpio_shadow s)"
      using that le old Z(1) by (simp_all add: pe_def)
    moreover have "\<not> pe \<le> int j"
      using that by linarith
    ultimately show ?thesis
      using C lz zj[OF j(1)] that R(3)[OF j] by (simp add: s')
  qed
  show "gpio_shadow s' ! j = clock_slot (clock_gpio s) j" if "nat pe \<le> j" "j < nat ops" for j
    using C lz zj[OF that(2)] that Z(1) by (auto simp: s' clock_slot_def)
  show "valid_shift (clock_gpio s)" if "pe < ops"
    using c that by (subst (asm) clock_loop.simps) (auto split: if_splits)
  show "serial_byte_size s' = n" "clock_gpio s' = clock_gpio s" "gpio_dma s' = gpio_dma s"
    "alloced_mem s' = alloced_mem s" "gpio s' = gpio s"
    "gpio_buffer_size s' = Some (word_of_int ops * word_of_nat sizeof_GPIOData)"
    by (simp_all add: s')
  show "s' = s\<lparr>serial_byte_size := n, gpio_shadow := gpio_shadow s',
            gpio_buffer_size := Some (word_of_int ops * word_of_nat sizeof_GPIOData)\<rparr>"
    by (simp add: s')
  have "ops mod 16 = 1"
    unfolding ops_def by (rule ops_mod16)
  moreover have "pe mod 16 = 0"
    using ops_mod16[of "serial_byte_size s"] unfolding pe_def by presburger
  ultimately have "pe \<noteq> ops" by auto
  with le show "pe < ops" by simp
qed

section \<open>The encoder loop\<close>

lemma bitv_nonzero:
  assumes "m < 8"
  shows "push_bit m (1::uint8_t) \<noteq> 0"
proof -
  have "bit (push_bit m (1::uint8_t)) m"
    using assms by (simp add: bit_simps)
  moreover have "\<not> bit (0::uint8_t) m"
    by simp
  ultimately show ?thesis by metis
qed

lemma bitv_shift: "Suc m < 8 \<Longrightarrow> drop_bit 1 (push_bit (Suc m) (1::uint8_t)) = push_bit m 1"
  by (rule bit_word_eqI) (auto simp: bit_simps)

lemma bitv_test: "(d AND push_bit m (1::uint8_t) \<noteq> 0) = bit d m"
  by (simp add: bit_iff_and_push_bit_not_eq_0)

lemma set_loop_pow:
  assumes "m < 8" "set_loop g d (push_bit m 1) p buf = Inr r"
  shows "valid_shift g \<and> p + 2 * m < length buf \<and> length r = length buf \<and>
    (\<forall>j < length buf. r ! j =
       (if p \<le> j \<and> j \<le> p + 2 * m \<and> even (j - p)
        then set_pin g (bit d (m - (j - p) div 2)) (buf ! j) else buf ! j))"
  using assms
proof (induction m arbitrary: p buf r)
  case 0
  then have "valid_shift g \<and> p < length buf"
    by (subst (asm) set_loop.simps) (simp split: if_splits)
  then have v: "valid_shift g" and b: "p < length buf"
    by simp_all
  from 0 v b have "set_loop g d 0 (p + 2) (buf[p := set_pin g (d AND 1 \<noteq> 0) (buf ! p)]) = Inr r"
    by (subst (asm) set_loop.simps) simp
  then have r: "r = buf[p := set_pin g (bit d 0) (buf ! p)]"
    using bitv_test[of d 0] by (subst (asm) set_loop.simps) simp
  show ?case
    using v b by (auto simp: r nth_list_update)
next
  case (Suc m)
  have nz: "push_bit (Suc m) (1::uint8_t) \<noteq> 0"
    using Suc.prems(1) by (rule bitv_nonzero)
  from Suc.prems(2) nz have "valid_shift g \<and> p < length buf"
    by (subst (asm) set_loop.simps) (simp split: if_splits del: push_bit_Suc)
  then have v: "valid_shift g" and b: "p < length buf"
    by simp_all
  let ?buf' = "buf[p := set_pin g (bit d (Suc m)) (buf ! p)]"
  from Suc.prems nz v b have rec: "set_loop g d (push_bit m 1) (p + 2) ?buf' = Inr r"
    using bitv_test[of d "Suc m"] bitv_shift[of m]
    by (subst (asm) set_loop.simps) (simp del: push_bit_Suc)
  from Suc.prems(1) have "m < 8" by simp
  from Suc.IH[OF this rec]
  have IH: "p + 2 + 2 * m < length buf" "length r = length buf"
    "\<And>j. j < length buf \<Longrightarrow> r ! j =
       (if p + 2 \<le> j \<and> j \<le> p + 2 + 2 * m \<and> even (j - (p + 2))
        then set_pin g (bit d (m - (j - (p + 2)) div 2)) (?buf' ! j) else ?buf' ! j)"
    by simp_all
  show ?case
  proof (intro conjI allI impI)
    show "valid_shift g" by (rule v)
    show "p + 2 * Suc m < length buf" using IH(1) by simp
    show "length r = length buf" by (rule IH(2))
  next
    fix j assume j: "j < length buf"
    show "r ! j = (if p \<le> j \<and> j \<le> p + 2 * Suc m \<and> even (j - p)
        then set_pin g (bit d (Suc m - (j - p) div 2)) (buf ! j) else buf ! j)"
    proof (cases "j = p")
      case True
      then show ?thesis using IH(3)[OF j] b by simp
    next
      case False
      show ?thesis
      proof (cases "p + 2 \<le> j")
        case True
        then obtain k where k: "j = p + 2 + k" by (auto simp: le_iff_add)
        have "?buf' ! j = buf ! j"
          using False by simp
        then show ?thesis
          using IH(3)[OF j] by (simp add: k)
      next
        case far: False
        with False have "j < p \<or> j = p + 1" by linarith
        then have neg: "\<not> (p \<le> j \<and> j \<le> p + 2 * Suc m \<and> even (j - p))"
          by auto
        have "r ! j = ?buf' ! j"
          using IH(3)[OF j] far by simp
        also have "?buf' ! j = buf ! j"
          using False by simp
        finally show ?thesis
          by (simp only: neg if_False)
      qed
    qed
  qed
qed

lemma set_loop_total:
  assumes "m < 8" "valid_shift g" "p + 2 * m < length buf"
  shows "\<exists>r. set_loop g d (push_bit m 1) p buf = Inr r"
  using assms
proof (induction m arbitrary: p buf)
  case 0
  then show ?case
    by (subst set_loop.simps, subst set_loop.simps) simp
next
  case (Suc m)
  have nz: "push_bit (Suc m) (1::uint8_t) \<noteq> 0"
    using Suc.prems(1) by (rule bitv_nonzero)
  let ?buf' = "buf[p := set_pin g (d AND push_bit (Suc m) 1 \<noteq> 0) (buf ! p)]"
  have "\<exists>r. set_loop g d (push_bit m 1) (p + 2) ?buf' = Inr r"
    using Suc.prems by (intro Suc.IH) simp_all
  then show ?case
    using Suc.prems nz bitv_shift[of m]
    by (subst set_loop.simps) (simp del: push_bit_Suc)
qed

lemma bit_gpio_bit: "valid_shift g \<Longrightarrow> bit (gpio_bit g) q = (q = nat g)"
  by (auto simp: gpio_bit_def valid_shift_def bit_simps)

lemma set_pin_set_bit:
  "valid_shift g \<Longrightarrow> bit (set_reg (set_pin g l x)) q = (if q = nat g then l else bit (set_reg x) q)"
  by (auto simp: set_pin_def bit_simps bit_gpio_bit dest: bit_imp_le_length)

lemma set_pin_clr_bit:
  "valid_shift g \<Longrightarrow> bit (clr (set_pin g l x)) q = (if q = nat g then \<not> l else bit (clr x) q)"
  by (auto simp: set_pin_def bit_simps bit_gpio_bit dest: bit_imp_le_length)

lemma set_pin_other [simp]:
  "ignored_upper_set_bits (set_pin g l x) = ignored_upper_set_bits x"
  "reserved_area (set_pin g l x) = reserved_area x"
  by (simp_all add: set_pin_def)

lemma set_pin_disjoint:
  "set_reg x AND clr x = 0 \<Longrightarrow> set_reg (set_pin g l x) AND clr (set_pin g l x) = 0"
proof -
  assume a: "set_reg x AND clr x = 0"
  have "\<not> (bit (set_reg x) q \<and> bit (clr x) q)" for q
    using a by (metis bit_and_iff bit_0_eq bot_apply bot_bool_def)
  then show ?thesis
    by (auto simp: set_pin_def bit_eq_iff bit_simps)
qed

lemma SetBufferedByte_Inr:
  assumes "SetBufferedByte s g pos d = Inr s'"
  defines "p \<equiv> unat (2 * 8 * pos)"
  shows "pos < serial_byte_size s" "valid_shift g" "p + 14 < length (gpio_shadow s)"
    "length (gpio_shadow s') = length (gpio_shadow s)"
    "\<And>j. j < length (gpio_shadow s) \<Longrightarrow> gpio_shadow s' ! j =
       (if p \<le> j \<and> j \<le> p + 14 \<and> even (j - p)
        then set_pin g (bit d (7 - (j - p) div 2)) (gpio_shadow s ! j) else gpio_shadow s ! j)"
    "s' = s\<lparr>gpio_shadow := gpio_shadow s'\<rparr>"
    "serial_byte_size s' = serial_byte_size s" "clock_gpio s' = clock_gpio s"
proof -
  have eq: "(0x80::uint8_t) = push_bit 7 1" by simp
  from assms(1) show pos: "pos < serial_byte_size s"
    by (simp add: SetBufferedByte_def split: if_splits)
  with assms(1) obtain r where r: "set_loop g d (push_bit 7 1) p (gpio_shadow s) = Inr r"
    and s': "s' = s\<lparr>gpio_shadow := r\<rparr>"
    unfolding SetBufferedByte_def p_def eq
    by (cases "set_loop g d (push_bit 7 1) (unat (2 * 8 * pos)) (gpio_shadow s)") auto
  have "(7::nat) < 8" by simp
  note L = set_loop_pow[OF this r]
  show "valid_shift g" using L by simp
  show "p + 14 < length (gpio_shadow s)" using L by simp
  show "length (gpio_shadow s') = length (gpio_shadow s)" using L by (simp add: s')
  show "gpio_shadow s' ! j =
       (if p \<le> j \<and> j \<le> p + 14 \<and> even (j - p)
        then set_pin g (bit d (7 - (j - p) div 2)) (gpio_shadow s ! j) else gpio_shadow s ! j)"
    if "j < length (gpio_shadow s)" for j
    using L that by (simp add: s')
  show "s' = s\<lparr>gpio_shadow := gpio_shadow s'\<rparr>" by (simp add: s')
  show "serial_byte_size s' = serial_byte_size s" "clock_gpio s' = clock_gpio s"
    by (simp_all add: s')
qed

section \<open>Registration, send and the invariant\<close>

lemma RegisterDataGPIO_Inr:
  assumes "RegisterDataGPIO A hp s gp n = Inr (ok, s')"
  obtains (same) "\<not> serial_byte_size s < n" "gpio_dma s = None"
      "s' = s\<lparr>gpio := snd (A (gpio s) gp)\<rparr>" "ok = fst (A (gpio s) gp)"
  | (grown) s1 where "serial_byte_size s < n" "gpio_dma s = None"
      "grow_timeline hp s n = Inr s1"
      "s' = s1\<lparr>gpio := snd (A (gpio s1) gp)\<rparr>" "ok = fst (A (gpio s1) gp)"
proof (cases "serial_byte_size s < n")
  case False
  with assms show ?thesis
    by (intro same) (auto simp: RegisterDataGPIO_def split: if_splits)
next
  case True
  with assms obtain s1 where "grow_timeline hp s n = Inr s1"
    by (cases "grow_timeline hp s n") (auto simp: RegisterDataGPIO_def split: if_splits)
  with assms True show ?thesis
    by (intro grown[of s1]) (auto simp: RegisterDataGPIO_def split: if_splits)
qed

lemma FinishRegistration_shadow:
  assumes "FinishRegistration P s = Inr s'"
  shows "gpio_shadow s' = gpio_shadow s" "serial_byte_size s' = serial_byte_size s"
    "clock_gpio s' = clock_gpio s" "gpio_buffer_size s' = gpio_buffer_size s"
  using assms by (auto simp: FinishRegistration_def Let_def split: if_splits)

lemma memcpy_dma_shadow:
  assumes "memcpy_dma s = Inr s'"
  shows "gpio_shadow s' = gpio_shadow s" "serial_byte_size s' = serial_byte_size s"
    "clock_gpio s' = clock_gpio s"
  using assms by (auto simp: memcpy_dma_def Let_def split: if_splits option.splits)

lemma SendBuffers_shadow:
  assumes "SendBuffers P K rd s = Some (Inr (acts, s'))"
  shows "gpio_shadow s' = gpio_shadow s \<and> serial_byte_size s' = serial_byte_size s \<and>
    clock_gpio s' = clock_gpio s"
proof -
  from assms obtain s1 where s1: "(if gpio_dma s = None then FinishRegistration P s else Inr s) = Inr s1"
    by (cases "if gpio_dma s = None then FinishRegistration P s else Inr s")
       (simp_all add: SendBuffers_def)
  with assms obtain s2 where s2: "memcpy_dma s1 = Inr s2"
    by (cases "memcpy_dma s1") (simp_all add: SendBuffers_def)
  from assms s1 s2 have "s' = s2"
    by (simp add: SendBuffers_def split: option.splits prod.splits)
  moreover from s1 have "gpio_shadow s1 = gpio_shadow s \<and> serial_byte_size s1 = serial_byte_size s \<and>
    clock_gpio s1 = clock_gpio s"
    by (auto split: if_splits dest: FinishRegistration_shadow)
  ultimately show ?thesis
    using memcpy_dma_shadow[OF s2] by simp
qed

lemma clock_slot_bits:
  "valid_shift c \<Longrightarrow> (if even i then bit (clr (clock_slot c i)) (nat c)
     else bit (set_reg (clock_slot c i)) (nat c))"
  by (simp add: clock_slot_def GPIOData_zero_def bit_gpio_bit)

lemma clock_slot_disjoint: "set_reg (clock_slot c i) AND clr (clock_slot c i) = 0"
  by (simp add: clock_slot_def GPIOData_zero_def)

lemma grow_inv:
  assumes inv: "timeline_inv s" and lt: "serial_byte_size s < n"
    and g: "grow_timeline hp s n = Inr s1"
  shows "timeline_inv s1"
proof -
  let ?pe = "bytes_to_gpio_ops (serial_byte_size s) - 1"
  let ?ops = "bytes_to_gpio_ops n"
  have old: "?pe \<le> int (length (gpio_shadow s))"
    using inv by (cases "serial_byte_size s = 0") (auto simp: timeline_inv_def ops_zero)
  note G = grow_timeline_Inr[OF g old]
  have n0: "n \<noteq> 0" using lt by (metis word_not_simps(1))
  have "?ops mod 16 = 1" by (rule ops_mod16)
  moreover have "?pe mod 16 = 0"
    using ops_mod16[of "serial_byte_size s"] by presburger
  ultimately have "?pe \<noteq> ?ops" by auto
  with G(2) have lt': "?pe < ?ops" by simp
  then have v: "valid_shift (clock_gpio s)" by (rule G(6))
  have lastslot: "last (gpio_shadow s1) = clock_slot (clock_gpio s1) (length (gpio_shadow s1) - 1)"
  proof -
    have ne: "gpio_shadow s1 \<noteq> []" using G(3,1) lt' by auto
    have "nat ?pe \<le> nat ?ops - 1" "nat ?ops - 1 < nat ?ops"
      using G(1) lt' by simp_all
    then have "gpio_shadow s1 ! (nat ?ops - 1) = clock_slot (clock_gpio s) (nat ?ops - 1)"
      by (rule G(5))
    then show ?thesis
      using ne by (simp add: last_conv_nth G(3) G(8))
  qed
  have slot: "(if j < nat ?pe then gpio_shadow s1 ! j = gpio_shadow s ! j \<and> j < length (gpio_shadow s)
               else gpio_shadow s1 ! j = clock_slot (clock_gpio s) j)"
    if "j < length (gpio_shadow s1)" for j
    using that G(3) G(4)[of j] G(5)[of j] old G(1) by auto
  have "clock_ok s1"
    unfolding clock_ok_def
  proof (intro allI impI)
    fix i assume i: "i < length (gpio_shadow s1)"
    then have ne: "gpio_shadow s1 \<noteq> []" by auto
    show "if even i then bit (clr (gpio_shadow s1 ! i)) (nat (clock_gpio s1))
          else bit (set_reg (gpio_shadow s1 ! i)) (nat (clock_gpio s1))"
    proof (cases "i < nat ?pe")
      case True
      with slot[OF i] inv show ?thesis
        by (simp add: timeline_inv_def clock_ok_def G(8))
    next
      case False
      with slot[OF i] clock_slot_bits[OF v, of i] show ?thesis
        by (simp add: G(8))
    qed
  qed
  moreover have "masks_disjoint s1"
    unfolding masks_disjoint_def
  proof (intro allI impI)
    fix i assume i: "i < length (gpio_shadow s1)"
    show "set_reg (gpio_shadow s1 ! i) AND clr (gpio_shadow s1 ! i) = 0"
    proof (cases "i < nat ?pe")
      case True
      with slot[OF i] inv show ?thesis
        by (simp add: timeline_inv_def masks_disjoint_def)
    next
      case False
      with slot[OF i] show ?thesis
        by (simp add: clock_slot_disjoint)
    qed
  qed
  ultimately show ?thesis
    using G(3,7,8) n0 v lastslot by (simp add: timeline_inv_def)
qed

lemma encode_inv:
  assumes inv: "timeline_inv s" and ne: "g \<noteq> clock_gpio s"
    and e: "SetBufferedByte s g pos d = Inr s'"
  shows "timeline_inv s'"
proof -
  note E = SetBufferedByte_Inr[OF e]
  note f = E(7,8)
  have ne0: "gpio_shadow s \<noteq> []" using E(3) by auto
  with inv have vc: "valid_shift (clock_gpio s)" by (simp add: timeline_inv_def)
  have nn: "nat (clock_gpio s) \<noteq> nat g"
    using ne vc E(2) by (auto simp: valid_shift_def)
  have "clock_ok s'"
    unfolding clock_ok_def
  proof (intro allI impI)
    fix i assume "i < length (gpio_shadow s')"
    then have i: "i < length (gpio_shadow s)" by (simp add: E(4))
    with inv have "if even i then bit (clr (gpio_shadow s ! i)) (nat (clock_gpio s))
          else bit (set_reg (gpio_shadow s ! i)) (nat (clock_gpio s))"
      by (simp add: timeline_inv_def clock_ok_def)
    then show "if even i then bit (clr (gpio_shadow s' ! i)) (nat (clock_gpio s'))
          else bit (set_reg (gpio_shadow s' ! i)) (nat (clock_gpio s'))"
      using nn by (simp add: E(5)[OF i] f set_pin_set_bit[OF E(2)] set_pin_clr_bit[OF E(2)])
  qed
  moreover have "masks_disjoint s'"
    unfolding masks_disjoint_def
  proof (intro allI impI)
    fix i assume "i < length (gpio_shadow s')"
    then have i: "i < length (gpio_shadow s)" by (simp add: E(4))
    with inv have "set_reg (gpio_shadow s ! i) AND clr (gpio_shadow s ! i) = 0"
      by (simp add: timeline_inv_def masks_disjoint_def)
    then show "set_reg (gpio_shadow s' ! i) AND clr (gpio_shadow s' ! i) = 0"
      by (simp add: E(5)[OF i] set_pin_disjoint)
  qed
  moreover have ne': "gpio_shadow s' \<noteq> []" using ne0 E(4) by auto
  moreover have "last (gpio_shadow s') = clock_slot (clock_gpio s') (length (gpio_shadow s') - 1)"
  proof -
    let ?L = "length (gpio_shadow s)"
    let ?p = "unat (2 * 8 * pos)"
    have b0: "serial_byte_size s \<noteq> 0"
      using E(1) by (metis word_not_simps(1))
    with inv have L: "?L = nat (bytes_to_gpio_ops (serial_byte_size s))"
      by (simp add: timeline_inv_def)
    have Lpos: "0 < ?L" using ne0 by simp
    with L have "int ?L = bytes_to_gpio_ops (serial_byte_size s)" by simp
    then have "int ?L mod 16 = 1" by (simp only: ops_mod16)
    then have Lm: "?L mod 16 = 1"
      by (metis nat_int nat_mod_distrib of_nat_0_le_iff of_nat_numeral nat_one_as_int zero_le_numeral)
    have pm: "?p mod 16 = 0" by (rule encode_pos_mod16)
    have lt17: "?p + 16 < ?L"
    proof -
      from pm obtain a where a: "?p = 16 * a" by (auto simp: mod_eq_0_iff_dvd)
      from Lm obtain c where c: "?L = 16 * c + 1"
        by (metis mod_mult_div_eq add.commute mult.commute)
      from E(3) have "16 * a + 14 < 16 * c + 1" by (simp only: a c)
      then have "a < c" by simp
      then have "16 * a + 16 < 16 * c + 1" by simp
      then show ?thesis by (simp only: a c)
    qed
    have i: "?L - 1 < ?L" using Lpos by simp
    have "\<not> ?L - 1 \<le> ?p + 14"
      using lt17 by linarith
    then have neg: "\<not> (?p \<le> ?L - 1 \<and> ?L - 1 \<le> ?p + 14 \<and> even (?L - 1 - ?p))"
      by blast
    have "gpio_shadow s' ! (?L - 1) = gpio_shadow s ! (?L - 1)"
      using E(5)[OF i] by (simp only: neg if_False)
    moreover have "gpio_shadow s ! (?L - 1) = clock_slot (clock_gpio s) (?L - 1)"
    proof -
      from inv ne0 have "last (gpio_shadow s) = clock_slot (clock_gpio s) (?L - 1)"
        unfolding timeline_inv_def by blast
      then show ?thesis by (simp only: last_conv_nth[OF ne0])
    qed
    ultimately show ?thesis
      using ne' by (simp add: last_conv_nth E(4) f)
  qed
  ultimately show ?thesis
    using inv E(1,4) f vc by (auto simp: timeline_inv_def)
qed

lemma reachable_inv: "reachable A s \<Longrightarrow> timeline_inv s"
proof (induction rule: reachable.induct)
  case (constructed Init clock s)
  then show ?case
    by (auto simp: DMAMultiSPI_new_def timeline_inv_def clock_ok_def masks_disjoint_def
        split: if_splits)
next
  case (registered s hp gpio_nr requested_bytes ok s')
  from registered.hyps(2) show ?case
  proof (cases rule: RegisterDataGPIO_Inr)
    case same
    with registered.IH show ?thesis
      by (simp add: timeline_inv_def clock_ok_def masks_disjoint_def)
  next
    case (grown s1)
    from grow_inv[OF registered.IH grown(1,3)] grown(4) show ?thesis
      by (simp add: timeline_inv_def clock_ok_def masks_disjoint_def)
  qed
next
  case (encoded s data_gpio pos data s')
  then show ?case by (intro encode_inv[of s data_gpio pos data s']) 
next
  case (sent s P K cs_reads acts s')
  from SendBuffers_shadow[OF sent.hyps(2)] sent.IH show ?case
    by (simp add: timeline_inv_def clock_ok_def masks_disjoint_def)
qed

section \<open>The operations return\<close>

lemma clock_loop_total:
  "valid_shift c \<Longrightarrow> 0 \<le> i \<Longrightarrow> n \<le> int (length buf) \<Longrightarrow> \<exists>r. clock_loop c i n buf = Inr r"
proof (induction c i n buf rule: clock_loop.induct)
  case (1 clock i gpio_operations buf)
  show ?case
  proof (cases "i < gpio_operations")
    case False
    then show ?thesis by (subst clock_loop.simps) simp
  next
    case True
    let ?buf' = "buf[nat i := (if i mod 2 = 0
                               then (buf ! nat i)\<lparr>clr := gpio_bit clock\<rparr>
                               else (buf ! nat i)\<lparr>set_reg := gpio_bit clock\<rparr>)]"
    have b: "\<not> (i < 0 \<or> int (length buf) \<le> i)"
      using True "1.prems" by simp
    have "\<exists>r. clock_loop clock (i + 1) gpio_operations ?buf' = Inr r"
      using "1.prems" True b by (intro "1.IH") simp_all
    then show ?thesis
      using True b "1.prems"(1) by (subst clock_loop.simps) simp
  qed
qed

lemma grow_timeline_total:
  assumes hp: "\<And>sz. hp sz \<noteq> None"
    and range: "16 * unat n + 1 < 2 ^ 31"
    and lt: "serial_byte_size s < n"
    and v: "valid_shift (clock_gpio s)"
  shows "\<exists>s1. grow_timeline hp s n = Inr s1"
proof -
  let ?b = "serial_byte_size s"
  define N B where "N = unat n" and "B = unat ?b"
  have bn: "B < N"
    using lt by (simp add: word_less_nat_alt N_def B_def)
  have range: "16 * N + 1 < 2 ^ 31"
    using range by (simp add: N_def)
  have rb: "16 * B + 1 < 2 ^ 31"
    using range bn by simp
  define ops where "ops = bytes_to_gpio_ops n"
  define pe where "pe = bytes_to_gpio_ops ?b - 1"
  have ops: "ops = int (16 * N + 1)" and pe: "pe = int (16 * B)"
    using ops_in_range[of n] ops_in_range[of ?b] range rb
    by (simp_all add: ops_def pe_def N_def B_def)
  let ?sz = "word_of_int ops * word_of_nat sizeof_GPIOData :: size_t"
  let ?n = "word_of_int (ops - pe) * word_of_nat sizeof_GPIOData :: size_t"
  have u: "unat ?sz = nat (16 * ops)"
    using range by (intro unat_slots_bytes_pos) (simp_all add: ops)
  have "nat (16 * ops) < 2 ^ 63"
    using range by (simp add: ops)
  then have "\<not> 2 ^ 63 \<le> unat ?sz"
    unfolding u by simp
  moreover obtain junk where "hp ?sz = Some junk"
    using hp[of ?sz] by auto
  ultimately obtain buf where r: "realloc_shadow hp (gpio_shadow s) ?sz = Some buf"
    unfolding realloc_shadow_def by simp
  have lb: "length buf = nat ops"
    using realloc_Some(2)[OF r] range by (simp add: ops)
  have d: "0 \<le> ops - pe" "ops - pe < 2 ^ 34"
    using bn range by (simp_all add: ops pe)
  have un: "unat ?n = nat (16 * (ops - pe))"
    using d by (intro unat_slots_bytes_pos)
  have dv: "nat (16 * (ops - pe)) div sizeof_GPIOData = nat (ops - pe)"
    using d(1) by (simp add: sizeof_GPIOData_def nat_mult_distrib)
  have fit: "nat pe + nat (ops - pe) \<le> length buf"
    using d(1) by (simp add: lb pe)
  have pe0: "0 \<le> pe" by (simp add: pe)
  define zbuf where "zbuf = take (nat pe) buf @ replicate (nat (ops - pe)) GPIOData_zero
                            @ drop (nat pe + nat (ops - pe)) buf"
  have z: "bzero_shadow buf pe ?n = Some zbuf"
    unfolding bzero_shadow_def Let_def un dv zbuf_def using fit pe0 by simp
  have lz: "length zbuf = length buf"
    using fit by (simp add: zbuf_def)
  have "\<exists>pbuf. clock_loop (clock_gpio s) pe ops zbuf = Inr pbuf"
    using v by (intro clock_loop_total) (simp_all add: pe lz lb)
  then obtain pbuf where c: "clock_loop (clock_gpio s) pe ops zbuf = Inr pbuf" ..
  show ?thesis
    using r z c by (simp add: grow_timeline_def Let_def ops_def pe_def)
qed

lemma SetBufferedByte_total:
  assumes "pos < serial_byte_size s" "valid_shift g"
    "unat (2 * 8 * pos) + 14 < length (gpio_shadow s)"
  shows "\<exists>s'. SetBufferedByte s g pos d = Inr s'"
proof -
  have eq: "(0x80::uint8_t) = push_bit 7 1" by simp
  have "\<exists>r. set_loop g d (push_bit 7 1) (unat (2 * 8 * pos)) (gpio_shadow s) = Inr r"
    using assms by (intro set_loop_total) simp_all
  then show ?thesis
    using assms(1) unfolding SetBufferedByte_def eq by auto
qed

section \<open>The concrete engine is reachable\<close>

lemma engine0_new: "DMAMultiSPI_new (True, []) ex_AddOutput 18 = Inr engine0"
  by (simp add: DMAMultiSPI_new_def ex_AddOutput_def engine0_def)

lemma engine0_reachable: "reachable ex_AddOutput engine0"
  using engine0_new by (rule reachable.constructed)

lemma ops_one: "bytes_to_gpio_ops 1 = 17"
  by (simp add: bytes_to_gpio_ops_def)

lemma ex_heap_total: "ex_heap sz \<noteq> None"
  by (simp add: ex_heap_def)

lemma engine1_grow:
  "grow_timeline ex_heap engine0 1 = Inr (engine1\<lparr>gpio := [18]\<rparr>)"
proof -
  have "\<exists>s1. grow_timeline ex_heap engine0 1 = Inr s1"
    by (rule grow_timeline_total) (simp_all add: ex_heap_total engine0_def valid_shift_def)
  then obtain s1 where g: "grow_timeline ex_heap engine0 1 = Inr s1" ..
  have old: "bytes_to_gpio_ops (serial_byte_size engine0) - 1 \<le> int (length (gpio_shadow engine0))"
    by (simp add: engine0_def ops_zero)
  note G = grow_timeline_Inr[OF g old]
  have len: "length (gpio_shadow s1) = 17"
    using G(3) by (simp add: ops_one)
  have "gpio_shadow s1 ! j = clock_slot 18 j" if "j < 17" for j
    using G(5)[of j] that by (simp add: engine0_def ops_zero ops_one)
  then have "gpio_shadow s1 = map (clock_slot 18) [0 ..< 17]"
    using len by (intro nth_equalityI) (simp_all del: upt_rec_numeral)
  then have "s1 = engine1\<lparr>gpio := [18]\<rparr>"
    by (subst G(13)) (simp add: engine0_def engine1_def ops_one sizeof_GPIOData_def)
  with g show ?thesis by simp
qed

lemma engine1_registered:
  "RegisterDataGPIO ex_AddOutput ex_heap engine0 23 1 = Inr (True, engine1)"
proof -
  have "gpio_dma engine0 = None" "serial_byte_size engine0 < 1"
    by (simp_all add: engine0_def)
  then show ?thesis
    by (simp add: RegisterDataGPIO_def engine1_grow) (simp add: engine1_def ex_AddOutput_def)
qed

lemma engine1_reachable: "reachable ex_AddOutput engine1"
  using engine0_reachable engine1_registered by (rule reachable.registered)

lemma engine1_slot: "j < 17 \<Longrightarrow> gpio_shadow engine1 ! j = clock_slot 18 j"
  by (simp add: engine1_def del: upt_rec_numeral)

lemma engine1_encode_total: "\<exists>s'. SetBufferedByte engine1 23 0 d = Inr s'"
  by (rule SetBufferedByte_total) (simp_all add: engine1_def valid_shift_def)

section \<open>Claims about the channel encoder\<close>

lemma encode_index:
  assumes "16 * unat b + 1 < 2 ^ 31" "pos < (b::size_t)"
  shows "unat (2 * 8 * pos) = 16 * unat pos" "16 * unat pos + 16 \<le> 16 * unat b"
proof -
  define B P where "B = unat b" and "P = unat pos"
  have lt: "P < B" using assms(2) by (simp add: word_less_nat_alt B_def P_def)
  have r: "16 * B + 1 < 2 ^ 31" using assms(1) by (simp add: B_def)
  have "16 * P < 2 ^ 64" using lt r by simp
  then have "unat (2 * 8 * pos) = 16 * P"
    unfolding P_def by (simp add: unat_word_ariths)
  then show "unat (2 * 8 * pos) = 16 * unat pos" by (simp add: P_def)
  have "16 * P + 16 \<le> 16 * B" using lt by simp
  then show "16 * unat pos + 16 \<le> 16 * unat b" by (simp only: B_def P_def)
qed

lemma reachable_length:
  assumes "reachable A s" "16 * unat (serial_byte_size s) + 1 < 2 ^ 31" "serial_byte_size s \<noteq> 0"
  shows "length (gpio_shadow s) = 16 * unat (serial_byte_size s) + 1"
proof -
  from reachable_inv[OF assms(1)] assms(3)
  have "length (gpio_shadow s) = nat (bytes_to_gpio_ops (serial_byte_size s))"
    by (simp add: timeline_inv_def)
  then show ?thesis
    by (simp only: ops_in_range[OF assms(2)] nat_int)
qed

lemma encode_room:
  assumes "reachable A s" and e: "SetBufferedByte s g pos d = Inr s'"
  shows "unat (2 * 8 * pos) + 16 < length (gpio_shadow s)"
proof -
  let ?L = "length (gpio_shadow s)"
  let ?p = "unat (2 * 8 * pos)"
  note E = SetBufferedByte_Inr[OF e]
  note inv = reachable_inv[OF assms(1)]
  have b0: "serial_byte_size s \<noteq> 0"
    using E(1) by (metis word_not_simps(1))
  with inv have L: "?L = nat (bytes_to_gpio_ops (serial_byte_size s))"
    by (simp add: timeline_inv_def)
  have Lpos: "0 < ?L" using E(3) by linarith
  with L have "int ?L = bytes_to_gpio_ops (serial_byte_size s)" by simp
  then have "int ?L mod 16 = 1" by (simp only: ops_mod16)
  then have Lm: "?L mod 16 = 1"
    by (metis nat_int nat_mod_distrib of_nat_0_le_iff of_nat_numeral nat_one_as_int zero_le_numeral)
  have pm: "?p mod 16 = 0" by (rule encode_pos_mod16)
  from pm obtain a where a: "?p = 16 * a" by (auto simp: mod_eq_0_iff_dvd)
  from Lm obtain c where c: "?L = 16 * c + 1"
    by (metis mod_mult_div_eq add.commute mult.commute)
  from E(3) have "16 * a + 14 < 16 * c + 1" by (simp only: a c)
  then have "a < c" by simp
  then have "16 * a + 16 < 16 * c + 1" by simp
  then show ?thesis by (simp only: a c)
qed

text \<open>
  C1, amended. On a reachable engine, when \<^verbatim>\<open>SetBufferedByte(pin, byte_index, value)\<close>
  returns, the byte index is below the capacity, and for each of the 8 bits of the
  value, most significant first (\<open>k = 0\<close> is bit 7), the level is written into the data
  slot \<open>2 * 8 * byte_index + 2 * k\<close> only: there the pin's bit of the set-mask is the bit
  of the value and the pin's bit of the clear-mask is its negation. The clock-edge slot
  behind it, \<open>2 * 8 * byte_index + 2 * k + 1\<close>, exists and is left as it was. With a byte
  index below the capacity, a pin number from 0 to 31 and a slot count in the range of
  \<^verbatim>\<open>int\<close> the call does return, and the slot index \<open>2 * 8 * byte_index\<close> is computed
  without wrap-around.
\<close>

theorem set_byte_writes_data_slots:
  assumes "reachable A s"
  shows "(\<forall>s'. SetBufferedByte s pin byte_index v = Inr s' \<longrightarrow>
       byte_index < serial_byte_size s \<and>
       (\<forall>k<8.
          bit (set_reg (gpio_shadow s' ! (unat (2 * 8 * byte_index) + 2 * k))) (nat pin)
            = bit v (7 - k) \<and>
          bit (clr (gpio_shadow s' ! (unat (2 * 8 * byte_index) + 2 * k))) (nat pin)
            = (\<not> bit v (7 - k)) \<and>
          unat (2 * 8 * byte_index) + 2 * k + 1 < length (gpio_shadow s') \<and>
          gpio_shadow s' ! (unat (2 * 8 * byte_index) + 2 * k + 1)
            = gpio_shadow s ! (unat (2 * 8 * byte_index) + 2 * k + 1))) \<and>
     (byte_index < serial_byte_size s \<and> valid_shift pin \<and>
      16 * unat (serial_byte_size s) + 1 < 2 ^ 31 \<longrightarrow>
        (\<exists>s'. SetBufferedByte s pin byte_index v = Inr s') \<and>
        unat (2 * 8 * byte_index) = 16 * unat byte_index)"
proof (intro conjI allI impI)
  fix s' assume e: "SetBufferedByte s pin byte_index v = Inr s'"
  note E = SetBufferedByte_Inr[OF e]
  show "byte_index < serial_byte_size s" by (rule E(1))
  fix k :: nat assume k: "k < 8"
  let ?p = "unat (2 * 8 * byte_index)"
  note room = encode_room[OF assms e]
  have j1: "?p + 2 * k < length (gpio_shadow s)" and j2: "?p + 2 * k + 1 < length (gpio_shadow s)"
    using k room by simp_all
  have d: "gpio_shadow s' ! (?p + 2 * k) = set_pin pin (bit v (7 - k)) (gpio_shadow s ! (?p + 2 * k))"
    using E(5)[OF j1] k by simp
  show "bit (set_reg (gpio_shadow s' ! (?p + 2 * k))) (nat pin) = bit v (7 - k)"
    by (simp only: d) (simp add: set_pin_set_bit[OF E(2)])
  show "bit (clr (gpio_shadow s' ! (?p + 2 * k))) (nat pin) = (\<not> bit v (7 - k))"
    by (simp only: d) (simp add: set_pin_clr_bit[OF E(2)])
  show "?p + 2 * k + 1 < length (gpio_shadow s')"
    using j2 by (simp only: E(4))
  show "gpio_shadow s' ! (?p + 2 * k + 1) = gpio_shadow s ! (?p + 2 * k + 1)"
    using E(5)[OF j2] by simp
next
  assume a: "byte_index < serial_byte_size s \<and> valid_shift pin \<and>
      16 * unat (serial_byte_size s) + 1 < 2 ^ 31"
  then have lt: "byte_index < serial_byte_size s" and vp: "valid_shift pin"
    and r: "16 * unat (serial_byte_size s) + 1 < 2 ^ 31"
    by simp_all
  have b0: "serial_byte_size s \<noteq> 0"
    using lt by (metis word_not_simps(1))
  note len = reachable_length[OF assms r b0]
  note idx = encode_index[OF r lt]
  show "\<exists>s'. SetBufferedByte s pin byte_index v = Inr s'"
    using lt vp idx by (intro SetBufferedByte_total) (simp_all add: len)
  show "unat (2 * 8 * byte_index) = 16 * unat byte_index"
    by (rule idx(1))
qed

theorem set_byte_writes_data_slots_witness:
  "reachable ex_AddOutput engine1 \<and> 0 < serial_byte_size engine1 \<and> valid_shift 23 \<and>
   16 * unat (serial_byte_size engine1) + 1 < 2 ^ 31 \<and>
   unat (2 * 8 * (0::size_t)) = 16 * unat (0::size_t) \<and>
   (\<exists>s'. SetBufferedByte engine1 23 0 0xA5 = Inr s' \<and>
     (\<forall>k<8.
        bit (set_reg (gpio_shadow s' ! (unat (2 * 8 * (0::size_t)) + 2 * k))) (nat 23)
          = bit (0xA5::uint8_t) (7 - k) \<and>
        bit (clr (gpio_shadow s' ! (unat (2 * 8 * (0::size_t)) + 2 * k))) (nat 23)
          = (\<not> bit (0xA5::uint8_t) (7 - k)) \<and>
        unat (2 * 8 * (0::size_t)) + 2 * k + 1 < length (gpio_shadow s') \<and>
        gpio_shadow s' ! (unat (2 * 8 * (0::size_t)) + 2 * k + 1)
          = gpio_shadow engine1 ! (unat (2 * 8 * (0::size_t)) + 2 * k + 1)))"
proof -
  have h: "0 < serial_byte_size engine1" "valid_shift 23"
    "16 * unat (serial_byte_size engine1) + 1 < 2 ^ 31"
    by (simp_all add: engine1_def valid_shift_def)
  note t = set_byte_writes_data_slots[OF engine1_reachable, of 23 0 "0xA5"]
  from conjunct2[OF t] h
  have tot: "(\<exists>s'. SetBufferedByte engine1 23 0 0xA5 = Inr s') \<and>
        unat (2 * 8 * (0::size_t)) = 16 * unat (0::size_t)"
    by blast
  then obtain s' where e: "SetBufferedByte engine1 23 0 0xA5 = Inr s'"
    by blast
  from conjunct1[OF t] e
  have p: "\<forall>k<8.
        bit (set_reg (gpio_shadow s' ! (unat (2 * 8 * (0::size_t)) + 2 * k))) (nat 23)
          = bit (0xA5::uint8_t) (7 - k) \<and>
        bit (clr (gpio_shadow s' ! (unat (2 * 8 * (0::size_t)) + 2 * k))) (nat 23)
          = (\<not> bit (0xA5::uint8_t) (7 - k)) \<and>
        unat (2 * 8 * (0::size_t)) + 2 * k + 1 < length (gpio_shadow s') \<and>
        gpio_shadow s' ! (unat (2 * 8 * (0::size_t)) + 2 * k + 1)
          = gpio_shadow engine1 ! (unat (2 * 8 * (0::size_t)) + 2 * k + 1)"
    by blast
  show ?thesis
    by (intro conjI exI[of _ s'] engine1_reachable h conjunct2[OF tot] e p)
qed

text \<open>
  C1 as stated fails: after encoding \<open>0xFF\<close> on pin 23 at byte 0, whose bit 7 is 1, the
  data slot 0 has pin 23 in its set-mask but the clock-edge slot 1 has not.
\<close>

theorem set_byte_clock_edge_slot_counterexample:
  "reachable ex_AddOutput engine1 \<and> 0 < serial_byte_size engine1 \<and> bit (0xFF::uint8_t) 7 \<and>
   (\<exists>s'. SetBufferedByte engine1 23 0 0xFF = Inr s' \<and>
      bit (set_reg (gpio_shadow s' ! 0)) 23 \<and> \<not> bit (set_reg (gpio_shadow s' ! 1)) 23)"
proof -
  obtain s' where e: "SetBufferedByte engine1 23 0 0xFF = Inr s'"
    using engine1_encode_total by blast
  note E = SetBufferedByte_Inr[OF e]
  have v: "valid_shift 23" "valid_shift 18" by (simp_all add: valid_shift_def)
  have l: "length (gpio_shadow engine1) = 17" by (simp add: engine1_def)
  have "gpio_shadow s' ! 0 = set_pin 23 True (gpio_shadow engine1 ! 0)"
    using E(5)[of 0] by (simp add: l)
  then have a: "bit (set_reg (gpio_shadow s' ! 0)) 23"
    by (simp add: set_pin_set_bit[OF v(1)])
  have "gpio_shadow s' ! 1 = clock_slot 18 1"
    using E(5)[of 1] by (simp add: l engine1_slot)
  then have b: "\<not> bit (set_reg (gpio_shadow s' ! 1)) 23"
    by (simp add: clock_slot_def GPIOData_zero_def bit_gpio_bit[OF v(2)])
  have c: "0 < serial_byte_size engine1" "bit (0xFF::uint8_t) 7"
    by (simp_all add: engine1_def bit_simps)
  show ?thesis
    by (intro conjI exI[of _ s'] engine1_reachable c e a b)
qed

text \<open>
  C6. When \<^verbatim>\<open>SetBufferedByte(P1, i, B1)\<close> and then \<^verbatim>\<open>SetBufferedByte(P2, i, B2)\<close> return
  and \<open>P1 \<noteq> P2\<close>, the second call leaves the bit of pin \<open>P1\<close> in the set-mask and in
  the clear-mask of every slot as the first call left it; it changes no bit of any mask
  other than the bit of \<open>P2\<close>, and no other field of any slot.
\<close>

theorem set_byte_non_interference:
  assumes "SetBufferedByte s P1 i B1 = Inr s1" and "SetBufferedByte s1 P2 i B2 = Inr s2"
    and "P1 \<noteq> P2"
  shows "length (gpio_shadow s2) = length (gpio_shadow s1) \<and>
    (\<forall>j < length (gpio_shadow s1).
       bit (set_reg (gpio_shadow s2 ! j)) (nat P1) = bit (set_reg (gpio_shadow s1 ! j)) (nat P1) \<and>
       bit (clr (gpio_shadow s2 ! j)) (nat P1) = bit (clr (gpio_shadow s1 ! j)) (nat P1) \<and>
       (\<forall>q. q \<noteq> nat P2 \<longrightarrow>
          bit (set_reg (gpio_shadow s2 ! j)) q = bit (set_reg (gpio_shadow s1 ! j)) q \<and>
          bit (clr (gpio_shadow s2 ! j)) q = bit (clr (gpio_shadow s1 ! j)) q) \<and>
       ignored_upper_set_bits (gpio_shadow s2 ! j) = ignored_upper_set_bits (gpio_shadow s1 ! j) \<and>
       reserved_area (gpio_shadow s2 ! j) = reserved_area (gpio_shadow s1 ! j))"
proof -
  note E1 = SetBufferedByte_Inr[OF assms(1)]
  note E2 = SetBufferedByte_Inr[OF assms(2)]
  have ne: "nat P1 \<noteq> nat P2"
    using assms(3) E1(2) E2(2) by (auto simp: valid_shift_def)
  have frame: "bit (set_reg (gpio_shadow s2 ! j)) q = bit (set_reg (gpio_shadow s1 ! j)) q \<and>
          bit (clr (gpio_shadow s2 ! j)) q = bit (clr (gpio_shadow s1 ! j)) q \<and>
       ignored_upper_set_bits (gpio_shadow s2 ! j) = ignored_upper_set_bits (gpio_shadow s1 ! j) \<and>
       reserved_area (gpio_shadow s2 ! j) = reserved_area (gpio_shadow s1 ! j)"
    if "j < length (gpio_shadow s1)" "q \<noteq> nat P2" for j q
    using that(2) by (simp add: E2(5)[OF that(1)] set_pin_set_bit[OF E2(2)] set_pin_clr_bit[OF E2(2)])
  show ?thesis
  proof (intro conjI allI impI)
    show "length (gpio_shadow s2) = length (gpio_shadow s1)" by (rule E2(4))
  qed (use frame ne in simp_all)
qed

theorem set_byte_non_interference_witness:
  "\<exists>s1 s2. SetBufferedByte engine1 23 0 0xA5 = Inr s1 \<and> SetBufferedByte s1 24 0 0x3C = Inr s2 \<and>
     (23::int) \<noteq> 24 \<and> length (gpio_shadow s2) = length (gpio_shadow s1) \<and>
    (\<forall>j < length (gpio_shadow s1).
       bit (set_reg (gpio_shadow s2 ! j)) (nat 23) = bit (set_reg (gpio_shadow s1 ! j)) (nat 23) \<and>
       bit (clr (gpio_shadow s2 ! j)) (nat 23) = bit (clr (gpio_shadow s1 ! j)) (nat 23) \<and>
       (\<forall>q. q \<noteq> nat 24 \<longrightarrow>
          bit (set_reg (gpio_shadow s2 ! j)) q = bit (set_reg (gpio_shadow s1 ! j)) q \<and>
          bit (clr (gpio_shadow s2 ! j)) q = bit (clr (gpio_shadow s1 ! j)) q) \<and>
       ignored_upper_set_bits (gpio_shadow s2 ! j) = ignored_upper_set_bits (gpio_shadow s1 ! j) \<and>
       reserved_area (gpio_shadow s2 ! j) = reserved_area (gpio_shadow s1 ! j))"
proof -
  obtain s1 where e1: "SetBufferedByte engine1 23 0 0xA5 = Inr s1"
    using engine1_encode_total by blast
  note E1 = SetBufferedByte_Inr[OF e1]
  have "\<exists>s2. SetBufferedByte s1 24 0 0x3C = Inr s2"
    using E1(3,4) by (intro SetBufferedByte_total) (simp_all add: E1(7) engine1_def valid_shift_def)
  then obtain s2 where e2: "SetBufferedByte s1 24 0 0x3C = Inr s2" ..
  have ne: "(23::int) \<noteq> 24" by simp
  note t = set_byte_non_interference[OF e1 e2 ne]
  show ?thesis
    by (intro exI[of _ s1] exI[of _ s2] conjI e1 e2 ne conjunct1[OF t] conjunct2[OF t])
qed

section \<open>Claims about registration and the timeline\<close>

lemma reachable_old:
  assumes "reachable A s"
  shows "bytes_to_gpio_ops (serial_byte_size s) - 1 \<le> int (length (gpio_shadow s))"
  using reachable_inv[OF assms]
  by (cases "serial_byte_size s = 0") (auto simp: timeline_inv_def ops_zero)

lemma reachable_boundary:
  assumes "reachable A s" "0 \<le> bytes_to_gpio_ops (serial_byte_size s) - 1"
  shows "nat (bytes_to_gpio_ops (serial_byte_size s) - 1) = length (gpio_shadow s) - 1"
  using reachable_inv[OF assms(1)] assms(2)
  by (cases "serial_byte_size s = 0") (auto simp: timeline_inv_def ops_zero)

lemma register_grown:
  assumes "RegisterDataGPIO A hp s gp n = Inr (ok, s')" "serial_byte_size s < n"
  obtains s1 where "grow_timeline hp s n = Inr s1" "gpio_shadow s' = gpio_shadow s1"
    "serial_byte_size s' = n" "clock_gpio s' = clock_gpio s" "ok = fst (A (gpio s) gp)"
    "gpio_buffer_size s' = gpio_buffer_size s1"
proof -
  from assms(1) show ?thesis
  proof (cases rule: RegisterDataGPIO_Inr)
    case same
    with assms(2) show ?thesis by simp
  next
    case (grown s1)
    have "serial_byte_size s1 = n" "clock_gpio s1 = clock_gpio s" "gpio s1 = gpio s"
      using grown(3) by (auto simp: grow_timeline_def Let_def split: option.splits sum.splits)
    with grown show ?thesis
      by (intro that[of s1]) simp_all
  qed
qed

lemma register_growth_general:
  assumes "reachable A s" and "serial_byte_size s < n"
    and "RegisterDataGPIO A hp s gp n = Inr (ok, s')"
  shows "\<forall>i < length (gpio_shadow s). gpio_shadow s' ! i = gpio_shadow s ! i"
    "\<forall>i. length (gpio_shadow s) - 1 \<le> i \<and> i < length (gpio_shadow s')
        \<longrightarrow> gpio_shadow s' ! i = clock_slot (clock_gpio s) i"
    "length (gpio_shadow s') = nat (bytes_to_gpio_ops n)"
    "length (gpio_shadow s) \<le> length (gpio_shadow s')"
    "16 * unat n + 1 < 2 ^ 31 \<Longrightarrow> length (gpio_shadow s') = 16 * unat n + 1"
    "16 * unat n + 1 < 2 ^ 31 \<Longrightarrow> serial_byte_size s \<noteq> 0
       \<Longrightarrow> length (gpio_shadow s) = 16 * unat (serial_byte_size s) + 1"
proof -
  let ?b = "serial_byte_size s"
  let ?L = "length (gpio_shadow s)"
  let ?pe = "bytes_to_gpio_ops ?b - 1"
  from assms(3,2) obtain s1 where g: "grow_timeline hp s n = Inr s1"
    and sh: "gpio_shadow s' = gpio_shadow s1"
    by (rule register_grown)
  note G = grow_timeline_Inr[OF g reachable_old[OF assms(1)]]
  note B = reachable_boundary[OF assms(1) G(1)]
  note inv = reachable_inv[OF assms(1)]
  have pe_lt: "nat ?pe < nat (bytes_to_gpio_ops n)"
    using G(1,14) by simp
  show len: "length (gpio_shadow s') = nat (bytes_to_gpio_ops n)"
    using G(3) by (simp only: sh)
  show "\<forall>i < ?L. gpio_shadow s' ! i = gpio_shadow s ! i"
  proof (intro allI impI)
    fix i assume i: "i < ?L"
    then have ne: "gpio_shadow s \<noteq> []" by auto
    show "gpio_shadow s' ! i = gpio_shadow s ! i"
    proof (cases "i < nat ?pe")
      case True
      then show ?thesis using G(4)[of i] by (simp only: sh)
    next
      case False
      with i have e: "i = ?L - 1" "i = nat ?pe" by (simp_all add: B)
      have "gpio_shadow s' ! i = clock_slot (clock_gpio s) i"
        using G(5)[of i] pe_lt by (simp only: sh e(2))
      moreover from inv ne have "last (gpio_shadow s) = clock_slot (clock_gpio s) (?L - 1)"
        unfolding timeline_inv_def by blast
      then have "gpio_shadow s ! i = clock_slot (clock_gpio s) i"
        by (simp only: last_conv_nth[OF ne] e(1)[symmetric])
      ultimately show ?thesis by simp
    qed
  qed
  show "\<forall>i. ?L - 1 \<le> i \<and> i < length (gpio_shadow s')
        \<longrightarrow> gpio_shadow s' ! i = clock_slot (clock_gpio s) i"
  proof (intro allI impI)
    fix i assume "?L - 1 \<le> i \<and> i < length (gpio_shadow s')"
    then have "nat ?pe \<le> i" "i < nat (bytes_to_gpio_ops n)"
      by (simp_all add: B len)
    then show "gpio_shadow s' ! i = clock_slot (clock_gpio s) i"
      using G(5)[of i] by (simp only: sh)
  qed
  show "?L \<le> length (gpio_shadow s')"
  proof (cases "gpio_shadow s = []")
    case True
    then show ?thesis by simp
  next
    case False
    then have "?L = Suc (?L - 1)" by simp
    also have "\<dots> = Suc (nat ?pe)" by (simp only: B)
    also have "\<dots> \<le> nat (bytes_to_gpio_ops n)" using pe_lt by (simp only: Suc_le_eq)
    finally show ?thesis by (simp only: len)
  qed
  show "length (gpio_shadow s') = 16 * unat n + 1" if r: "16 * unat n + 1 < 2 ^ 31"
    by (simp only: len ops_in_range[OF r] nat_int)
  show "?L = 16 * unat ?b + 1" if r: "16 * unat n + 1 < 2 ^ 31" and b0: "?b \<noteq> 0"
  proof -
    have "unat ?b < unat n"
      using assms(2) by (simp add: word_less_nat_alt)
    then have "16 * unat ?b + 1 < 2 ^ 31"
      using r by simp
    then show ?thesis
      using assms(1) b0 by (intro reachable_length)
  qed
qed

text \<open>
  C2. For a reachable engine with capacity \<open>b > 0\<close>, a registration with \<open>b' > b\<close> that
  returns leaves every slot of the old timeline as it was, and every slot from the old
  last slot on is the bare clock pre-pattern of its index, with no other bit. With
  \<open>16 * b' + 1\<close> in the range of \<^verbatim>\<open>int\<close> the old last slot is slot \<open>16 * b\<close> and the new last
  slot is slot \<open>16 * b'\<close>: the slots below \<open>16 * b\<close> are kept and the slots \<open>16 * b\<close> to
  \<open>16 * b'\<close> carry the pattern.
\<close>

theorem growth_preserves_prefix:
  assumes "reachable A s" and "0 < serial_byte_size s" and "serial_byte_size s < b'"
    and "RegisterDataGPIO A hp s pin b' = Inr (ok, s')"
  shows "(\<forall>i < length (gpio_shadow s). gpio_shadow s' ! i = gpio_shadow s ! i) \<and>
    (\<forall>i. length (gpio_shadow s) - 1 \<le> i \<and> i < length (gpio_shadow s')
        \<longrightarrow> gpio_shadow s' ! i = clock_slot (clock_gpio s) i) \<and>
    (16 * unat b' + 1 < 2 ^ 31 \<longrightarrow>
       length (gpio_shadow s) - 1 = 16 * unat (serial_byte_size s) \<and>
       length (gpio_shadow s') - 1 = 16 * unat b')"
proof -
  note R = register_growth_general[OF assms(1,3,4)]
  have b0: "serial_byte_size s \<noteq> 0"
    using assms(2) by (metis word_not_simps(1))
  have "length (gpio_shadow s) - 1 = 16 * unat (serial_byte_size s) \<and>
       length (gpio_shadow s') - 1 = 16 * unat b'" if "16 * unat b' + 1 < 2 ^ 31"
    using R(5)[OF that] R(6)[OF that b0] by simp
  then show ?thesis
    using R(1,2) by blast
qed

text \<open>
  C5. In every reachable engine state no pin has its bit in both the set-mask and the
  clear-mask of a slot.
\<close>

theorem masks_never_overlap:
  assumes "reachable A s"
  shows "\<forall>i < length (gpio_shadow s). \<forall>q.
           \<not> (bit (set_reg (gpio_shadow s ! i)) q \<and> bit (clr (gpio_shadow s ! i)) q)"
proof (intro allI impI)
  fix i q assume "i < length (gpio_shadow s)"
  with reachable_inv[OF assms] have "set_reg (gpio_shadow s ! i) AND clr (gpio_shadow s ! i) = 0"
    by (simp add: timeline_inv_def masks_disjoint_def)
  then show "\<not> (bit (set_reg (gpio_shadow s ! i)) q \<and> bit (clr (gpio_shadow s ! i)) q)"
    by (metis bit_and_iff bit_0_eq bot_apply bot_bool_def)
qed

lemma register_total:
  assumes "gpio_dma s = None" and "\<And>sz. hp sz \<noteq> None" and "16 * unat n + 1 < 2 ^ 31"
    and "serial_byte_size s < n" and "valid_shift (clock_gpio s)"
  shows "\<exists>s'. RegisterDataGPIO A hp s gp n = Inr (fst (A (gpio s) gp), s')"
proof -
  have "\<exists>s1. grow_timeline hp s n = Inr s1"
    using assms(2,3,4,5) by (rule grow_timeline_total)
  then obtain s1 where g: "grow_timeline hp s n = Inr s1" ..
  then have "gpio s1 = gpio s"
    by (auto simp: grow_timeline_def Let_def split: option.splits sum.splits)
  then show ?thesis
    using assms(1,4) g by (simp add: RegisterDataGPIO_def)
qed

lemma engine1_register_total:
  "\<exists>s'. RegisterDataGPIO ex_AddOutput ex_heap engine1 gp 2 = Inr (fst (ex_AddOutput [23, 18] gp), s')"
proof -
  have "\<exists>s'. RegisterDataGPIO ex_AddOutput ex_heap engine1 gp 2
          = Inr (fst (ex_AddOutput (gpio engine1) gp), s')"
    by (rule register_total) (simp_all add: engine1_def ex_heap_total valid_shift_def)
  then show ?thesis by (simp add: engine1_def)
qed

theorem growth_preserves_prefix_witness:
  "reachable ex_AddOutput engine1 \<and> 0 < serial_byte_size engine1 \<and> serial_byte_size engine1 < 2 \<and>
   16 * unat (2::size_t) + 1 < 2 ^ 31 \<and>
   (\<exists>s'. RegisterDataGPIO ex_AddOutput ex_heap engine1 24 2 = Inr (True, s') \<and>
      (\<forall>i < length (gpio_shadow engine1). gpio_shadow s' ! i = gpio_shadow engine1 ! i) \<and>
      (\<forall>i. length (gpio_shadow engine1) - 1 \<le> i \<and> i < length (gpio_shadow s')
          \<longrightarrow> gpio_shadow s' ! i = clock_slot (clock_gpio engine1) i) \<and>
      length (gpio_shadow engine1) - 1 = 16 * unat (serial_byte_size engine1) \<and>
      length (gpio_shadow s') - 1 = 16 * unat (2::size_t))"
proof -
  have h: "0 < serial_byte_size engine1" "serial_byte_size engine1 < 2"
    by (simp_all add: engine1_def)
  have r2: "16 * unat (2::size_t) + 1 < 2 ^ 31" by simp
  obtain s' where r: "RegisterDataGPIO ex_AddOutput ex_heap engine1 24 2 = Inr (True, s')"
    using engine1_register_total[of 24] by (auto simp: ex_AddOutput_def)
  note t = growth_preserves_prefix[OF engine1_reachable h r]
  have l: "length (gpio_shadow engine1) - 1 = 16 * unat (serial_byte_size engine1) \<and>
       length (gpio_shadow s') - 1 = 16 * unat (2::size_t)"
    using conjunct2[OF conjunct2[OF t]] r2 by blast
  show ?thesis
    by (intro conjI exI[of _ s'] engine1_reachable h r2 r conjunct1[OF t]
        conjunct1[OF conjunct2[OF t]] conjunct1[OF l] conjunct2[OF l])
qed

theorem masks_never_overlap_witness:
  "\<exists>s'. SetBufferedByte engine1 23 0 0xA5 = Inr s' \<and> reachable ex_AddOutput s' \<and>
     0 < length (gpio_shadow s') \<and>
     \<not> (bit (set_reg (gpio_shadow s' ! 0)) 23 \<and> bit (clr (gpio_shadow s' ! 0)) 23)"
proof -
  obtain s' where e: "SetBufferedByte engine1 23 0 0xA5 = Inr s'"
    using engine1_encode_total by blast
  have ne: "(23::int) \<noteq> clock_gpio engine1" by (simp add: engine1_def)
  have r: "reachable ex_AddOutput s'"
    using engine1_reachable ne e by (rule reachable.encoded)
  have l: "0 < length (gpio_shadow s')"
    using SetBufferedByte_Inr(4)[OF e] by (simp add: engine1_def)
  from masks_never_overlap[OF r] l
  have "\<not> (bit (set_reg (gpio_shadow s' ! 0)) 23 \<and> bit (clr (gpio_shadow s' ! 0)) 23)"
    by blast
  with e r l show ?thesis by blast
qed

text \<open>
  C3, amended. In every reachable engine state the timeline is empty while the capacity
  is 0, and has exactly \<open>b * 16 + 1\<close> slots when the capacity \<open>b\<close> is positive and
  \<open>b * 16 + 1\<close> fits the \<^verbatim>\<open>int\<close> that \<^verbatim>\<open>bytes_to_gpio_ops\<close> returns; in general the number of
  slots is what \<^verbatim>\<open>bytes_to_gpio_ops\<close> returns for a positive capacity. The capacity is the
  largest byte count registered: a registration that returns makes it the larger of the
  old capacity and the requested one.
\<close>

theorem slot_count_formula:
  assumes "reachable A s"
  shows "(serial_byte_size s = 0 \<longrightarrow> length (gpio_shadow s) = 0) \<and>
    (0 < serial_byte_size s \<longrightarrow>
        length (gpio_shadow s) = nat (bytes_to_gpio_ops (serial_byte_size s))) \<and>
    (0 < serial_byte_size s \<and> unat (serial_byte_size s) * 16 + 1 < 2 ^ 31 \<longrightarrow>
        length (gpio_shadow s) = unat (serial_byte_size s) * 8 * 2 + 1) \<and>
    (\<forall>hp pin n ok s'. RegisterDataGPIO A hp s pin n = Inr (ok, s') \<longrightarrow>
        serial_byte_size s' = max (serial_byte_size s) n)"
proof (intro conjI impI allI)
  assume "serial_byte_size s = 0"
  with reachable_inv[OF assms] show "length (gpio_shadow s) = 0"
    by (simp add: timeline_inv_def)
next
  assume "0 < serial_byte_size s"
  then have "serial_byte_size s \<noteq> 0" by (metis word_not_simps(1))
  with reachable_inv[OF assms]
  show "length (gpio_shadow s) = nat (bytes_to_gpio_ops (serial_byte_size s))"
    by (simp add: timeline_inv_def)
next
  assume a: "0 < serial_byte_size s \<and> unat (serial_byte_size s) * 16 + 1 < 2 ^ 31"
  then have "serial_byte_size s \<noteq> 0" by (metis word_not_simps(1))
  moreover from a have "16 * unat (serial_byte_size s) + 1 < 2 ^ 31"
    by (simp add: mult.commute)
  ultimately have "length (gpio_shadow s) = 16 * unat (serial_byte_size s) + 1"
    using assms by (intro reachable_length)
  then show "length (gpio_shadow s) = unat (serial_byte_size s) * 8 * 2 + 1"
    by simp
next
  fix hp pin n ok s'
  assume r: "RegisterDataGPIO A hp s pin n = Inr (ok, s')"
  then show "serial_byte_size s' = max (serial_byte_size s) n"
  proof (cases rule: RegisterDataGPIO_Inr)
    case same
    then show ?thesis by (simp add: max_def)
  next
    case (grown s1)
    from register_grown[OF r grown(1)] have "serial_byte_size s' = n" by metis
    with grown(1) show ?thesis by (simp add: max_def less_imp_le)
  qed
qed

theorem slot_count_formula_witness:
  "reachable ex_AddOutput engine0 \<and> serial_byte_size engine0 = 0 \<and>
   length (gpio_shadow engine0) = 0 \<and>
   reachable ex_AddOutput engine1 \<and> 0 < serial_byte_size engine1 \<and>
   unat (serial_byte_size engine1) * 16 + 1 < 2 ^ 31 \<and>
   length (gpio_shadow engine1) = nat (bytes_to_gpio_ops (serial_byte_size engine1)) \<and>
   length (gpio_shadow engine1) = unat (serial_byte_size engine1) * 8 * 2 + 1 \<and>
   (\<exists>s'. RegisterDataGPIO ex_AddOutput ex_heap engine1 24 2 = Inr (True, s') \<and>
      serial_byte_size s' = max (serial_byte_size engine1) 2)"
proof -
  have z: "serial_byte_size engine0 = 0" by (simp add: engine0_def)
  have l0: "length (gpio_shadow engine0) = 0"
    using slot_count_formula[OF engine0_reachable] z by blast
  have h: "0 < serial_byte_size engine1" "unat (serial_byte_size engine1) * 16 + 1 < 2 ^ 31"
    by (simp_all add: engine1_def)
  obtain s' where r: "RegisterDataGPIO ex_AddOutput ex_heap engine1 24 2 = Inr (True, s')"
    using engine1_register_total[of 24] by (auto simp: ex_AddOutput_def)
  note t = slot_count_formula[OF engine1_reachable]
  have l1: "length (gpio_shadow engine1) = nat (bytes_to_gpio_ops (serial_byte_size engine1))"
    using t h by blast
  have l2: "length (gpio_shadow engine1) = unat (serial_byte_size engine1) * 8 * 2 + 1"
    using t h by blast
  have m: "serial_byte_size s' = max (serial_byte_size engine1) 2"
    using t r by blast
  show ?thesis
    by (intro conjI exI[of _ s'] engine0_reachable z l0 engine1_reachable h l1 l2 r m)
qed

lemma ops_wrapped: "bytes_to_gpio_ops 268435456 = 1"
  by (simp add: bytes_to_gpio_ops_def)

lemma engine0_grow_wrapped:
  "grow_timeline ex_heap engine0 268435456
     = Inr (engine0\<lparr>serial_byte_size := 268435456, gpio_shadow := [clock_slot 18 0],
                    gpio_buffer_size := Some 16\<rparr>)"
proof -
  have r: "realloc_shadow ex_heap [] 16
             = Some [\<lparr>set_reg = 0xFFFFFFFF, ignored_upper_set_bits = 0xFFFFFFFF,
                      reserved_area = 0xFFFFFFFF, clr = 0xFFFFFFFF\<rparr>]"
    by (simp add: realloc_shadow_def ex_heap_def sizeof_GPIOData_def)
  have z: "bzero_shadow [x] 0 16 = Some [GPIOData_zero]" for x
    by (simp add: bzero_shadow_def sizeof_GPIOData_def)
  have c: "clock_loop 18 0 1 [GPIOData_zero] = Inr [clock_slot 18 0]"
    by (subst clock_loop.simps, subst clock_loop.simps)
       (simp add: valid_shift_def clock_slot_def)
  show ?thesis
    by (simp add: grow_timeline_def Let_def ops_wrapped ops_zero engine0_def sizeof_GPIOData_def r z c)
qed

text \<open>
  C3 as stated fails at both ends. Registering pin 23 with capacity 0 on the fresh
  engine returns and leaves the timeline empty, not \<open>0 * 16 + 1 = 1\<close> slots long. Registering
  it with capacity \<open>2 ^ 28\<close> returns with a timeline of one slot: \<open>2 ^ 28 * 16 + 1\<close> does
  not fit the \<^verbatim>\<open>int\<close> and wraps to 1.
\<close>

theorem slot_count_formula_counterexample:
  "(\<exists>s. RegisterDataGPIO ex_AddOutput ex_heap engine0 23 0 = Inr (True, s) \<and>
        reachable ex_AddOutput s \<and> serial_byte_size s = 0 \<and>
        length (gpio_shadow s) \<noteq> unat (serial_byte_size s) * 16 + 1) \<and>
   (\<exists>s. RegisterDataGPIO ex_AddOutput ex_heap engine0 23 (2 ^ 28) = Inr (True, s) \<and>
        reachable ex_AddOutput s \<and> serial_byte_size s = 2 ^ 28 \<and>
        length (gpio_shadow s) = 1 \<and>
        length (gpio_shadow s) \<noteq> unat (serial_byte_size s) * 16 + 1)"
proof (intro conjI)
  have r: "RegisterDataGPIO ex_AddOutput ex_heap engine0 23 0
             = Inr (True, engine0\<lparr>gpio := [23, 18]\<rparr>)"
    by (simp add: RegisterDataGPIO_def engine0_def ex_AddOutput_def)
  have "reachable ex_AddOutput (engine0\<lparr>gpio := [23, 18]\<rparr>)"
    using engine0_reachable r by (rule reachable.registered)
  with r show "\<exists>s. RegisterDataGPIO ex_AddOutput ex_heap engine0 23 0 = Inr (True, s) \<and>
        reachable ex_AddOutput s \<and> serial_byte_size s = 0 \<and>
        length (gpio_shadow s) \<noteq> unat (serial_byte_size s) * 16 + 1"
    by (intro exI[of _ "engine0\<lparr>gpio := [23, 18]\<rparr>"]) (simp add: engine0_def)
next
  let ?s = "engine0\<lparr>serial_byte_size := 2 ^ 28, gpio_shadow := [clock_slot 18 0],
                    gpio_buffer_size := Some 16, gpio := [23, 18]\<rparr>"
  have "gpio_dma engine0 = None" "serial_byte_size engine0 < 268435456"
    by (simp_all add: engine0_def)
  then have "RegisterDataGPIO ex_AddOutput ex_heap engine0 23 268435456 = Inr (True, ?s)"
    by (simp add: RegisterDataGPIO_def engine0_grow_wrapped) (simp add: engine0_def ex_AddOutput_def)
  then have r: "RegisterDataGPIO ex_AddOutput ex_heap engine0 23 (2 ^ 28) = Inr (True, ?s)"
    by simp
  have "reachable ex_AddOutput ?s"
    using engine0_reachable r by (rule reachable.registered)
  with r show "\<exists>s. RegisterDataGPIO ex_AddOutput ex_heap engine0 23 (2 ^ 28) = Inr (True, s) \<and>
        reachable ex_AddOutput s \<and> serial_byte_size s = 2 ^ 28 \<and>
        length (gpio_shadow s) = 1 \<and>
        length (gpio_shadow s) \<noteq> unat (serial_byte_size s) * 16 + 1"
    by (intro exI[of _ ?s]) (simp add: engine0_def)
qed

section \<open>The clock pattern and the order of a registration\<close>

text \<open>
  C4. In every reachable engine state every even slot has the clock pin in its
  clear-mask and every odd slot has it in its set-mask. An encoding on a data pin other
  than the clock pin leaves the clock pin's bit of both masks of every slot as it was.
  A registration that grows the timeline leaves every slot of the old timeline as it
  was (the old last slot is written again, with the content it had), and the slots from
  the old last slot on hold the bare pattern; a registration that does not grow leaves
  the timeline as it was.
\<close>

theorem clock_pattern_invariant:
  assumes "reachable A s"
  shows "(\<forall>i < length (gpio_shadow s).
            if even i then bit (clr (gpio_shadow s ! i)) (nat (clock_gpio s))
            else bit (set_reg (gpio_shadow s ! i)) (nat (clock_gpio s))) \<and>
    (\<forall>g pos d s'. g \<noteq> clock_gpio s \<and> SetBufferedByte s g pos d = Inr s' \<longrightarrow>
        clock_gpio s' = clock_gpio s \<and>
        (\<forall>i < length (gpio_shadow s).
           bit (set_reg (gpio_shadow s' ! i)) (nat (clock_gpio s))
             = bit (set_reg (gpio_shadow s ! i)) (nat (clock_gpio s)) \<and>
           bit (clr (gpio_shadow s' ! i)) (nat (clock_gpio s))
             = bit (clr (gpio_shadow s ! i)) (nat (clock_gpio s)))) \<and>
    (\<forall>hp gp n ok s'. serial_byte_size s < n \<and> RegisterDataGPIO A hp s gp n = Inr (ok, s') \<longrightarrow>
        (\<forall>i < length (gpio_shadow s). gpio_shadow s' ! i = gpio_shadow s ! i) \<and>
        (\<forall>i. length (gpio_shadow s) - 1 \<le> i \<and> i < length (gpio_shadow s')
            \<longrightarrow> gpio_shadow s' ! i = clock_slot (clock_gpio s) i)) \<and>
    (\<forall>hp gp n ok s'. \<not> serial_byte_size s < n \<and> RegisterDataGPIO A hp s gp n = Inr (ok, s') \<longrightarrow>
        gpio_shadow s' = gpio_shadow s)"
proof (intro conjI allI impI)
  fix i assume "i < length (gpio_shadow s)"
  with reachable_inv[OF assms]
  show "if even i then bit (clr (gpio_shadow s ! i)) (nat (clock_gpio s))
        else bit (set_reg (gpio_shadow s ! i)) (nat (clock_gpio s))"
    by (simp add: timeline_inv_def clock_ok_def)
next
  fix g pos d s'
  assume "g \<noteq> clock_gpio s \<and> SetBufferedByte s g pos d = Inr s'"
  then have e: "SetBufferedByte s g pos d = Inr s'" by simp
  show "clock_gpio s' = clock_gpio s"
    by (rule SetBufferedByte_Inr(8)[OF e])
next
  fix g pos d s' i
  assume a: "g \<noteq> clock_gpio s \<and> SetBufferedByte s g pos d = Inr s'"
    and i: "i < length (gpio_shadow s)"
  then have e: "SetBufferedByte s g pos d = Inr s'" by simp
  note E = SetBufferedByte_Inr[OF e]
  have "gpio_shadow s \<noteq> []" using i by auto
  with reachable_inv[OF assms] have "valid_shift (clock_gpio s)"
    by (simp add: timeline_inv_def)
  with a E(2) have nn: "nat (clock_gpio s) \<noteq> nat g"
    by (auto simp: valid_shift_def)
  show "bit (set_reg (gpio_shadow s' ! i)) (nat (clock_gpio s))
          = bit (set_reg (gpio_shadow s ! i)) (nat (clock_gpio s))"
    using nn by (simp add: E(5)[OF i] set_pin_set_bit[OF E(2)])
  show "bit (clr (gpio_shadow s' ! i)) (nat (clock_gpio s))
          = bit (clr (gpio_shadow s ! i)) (nat (clock_gpio s))"
    using nn by (simp add: E(5)[OF i] set_pin_clr_bit[OF E(2)])
next
  fix hp gp n ok s' i
  assume a: "serial_byte_size s < n \<and> RegisterDataGPIO A hp s gp n = Inr (ok, s')"
  then have l: "serial_byte_size s < n" and r: "RegisterDataGPIO A hp s gp n = Inr (ok, s')"
    by simp_all
  note R = register_growth_general[OF assms l r]
  show "gpio_shadow s' ! i = gpio_shadow s ! i" if "i < length (gpio_shadow s)"
    using R(1) that by simp
  show "gpio_shadow s' ! i = clock_slot (clock_gpio s) i"
    if "length (gpio_shadow s) - 1 \<le> i \<and> i < length (gpio_shadow s')"
    using R(2) that by simp
next
  fix hp gp n ok s'
  assume a: "\<not> serial_byte_size s < n \<and> RegisterDataGPIO A hp s gp n = Inr (ok, s')"
  then have "RegisterDataGPIO A hp s gp n = Inr (ok, s')" by simp
  then show "gpio_shadow s' = gpio_shadow s"
  proof (cases rule: RegisterDataGPIO_Inr)
    case same
    then show ?thesis by simp
  next
    case (grown s1)
    with a show ?thesis by simp
  qed
qed

theorem clock_pattern_invariant_witness:
  "reachable ex_AddOutput engine1 \<and>
   bit (clr (gpio_shadow engine1 ! 0)) (nat (clock_gpio engine1)) \<and>
   bit (set_reg (gpio_shadow engine1 ! 1)) (nat (clock_gpio engine1)) \<and>
   (\<exists>s'. SetBufferedByte engine1 23 0 0xA5 = Inr s' \<and>
      bit (clr (gpio_shadow s' ! 0)) (nat (clock_gpio engine1))
        = bit (clr (gpio_shadow engine1 ! 0)) (nat (clock_gpio engine1))) \<and>
   (\<exists>s'. RegisterDataGPIO ex_AddOutput ex_heap engine1 24 2 = Inr (True, s') \<and>
      gpio_shadow s' ! 3 = gpio_shadow engine1 ! 3 \<and>
      gpio_shadow s' ! 20 = clock_slot (clock_gpio engine1) 20) \<and>
   (\<exists>s'. \<not> serial_byte_size engine1 < 1 \<and>
      RegisterDataGPIO ex_AddOutput ex_heap engine1 24 1 = Inr (True, s') \<and>
      gpio_shadow s' = gpio_shadow engine1)"
proof -
  note t = clock_pattern_invariant[OF engine1_reachable]
  have nl: "\<not> serial_byte_size engine1 < 1" by (simp add: engine1_def)
  have "gpio_dma engine1 = None" by (simp add: engine1_def)
  with nl have r1: "RegisterDataGPIO ex_AddOutput ex_heap engine1 24 1
             = Inr (True, engine1\<lparr>gpio := [24, 23, 18]\<rparr>)"
    by (simp add: RegisterDataGPIO_def) (simp add: engine1_def ex_AddOutput_def)
  from conjunct2[OF conjunct2[OF conjunct2[OF t]]] nl r1
  have p5: "gpio_shadow (engine1\<lparr>gpio := [24, 23, 18]\<rparr>) = gpio_shadow engine1"
    by blast
  have l: "length (gpio_shadow engine1) = 17" by (simp add: engine1_def)
  have p0: "bit (clr (gpio_shadow engine1 ! 0)) (nat (clock_gpio engine1))"
    using conjunct1[OF t] l by (auto dest: spec[of _ 0])
  have p1: "bit (set_reg (gpio_shadow engine1 ! 1)) (nat (clock_gpio engine1))"
    using conjunct1[OF t] l by (auto dest: spec[of _ 1])
  obtain s1 where e: "SetBufferedByte engine1 23 0 0xA5 = Inr s1"
    using engine1_encode_total by blast
  have "(23::int) \<noteq> clock_gpio engine1" by (simp add: engine1_def)
  with e conjunct1[OF conjunct2[OF t]] l
  have p2: "bit (clr (gpio_shadow s1 ! 0)) (nat (clock_gpio engine1))
        = bit (clr (gpio_shadow engine1 ! 0)) (nat (clock_gpio engine1))"
    by (metis zero_less_numeral)
  obtain s2 where r: "RegisterDataGPIO ex_AddOutput ex_heap engine1 24 2 = Inr (True, s2)"
    using engine1_register_total[of 24] by (auto simp: ex_AddOutput_def)
  have lt: "serial_byte_size engine1 < 2" by (simp add: engine1_def)
  have l2: "length (gpio_shadow s2) = 33"
    using register_growth_general(3)[OF engine1_reachable lt r]
    by (simp add: bytes_to_gpio_ops_def)
  from conjunct1[OF conjunct2[OF conjunct2[OF t]]] lt r
  have g: "(\<forall>i < length (gpio_shadow engine1). gpio_shadow s2 ! i = gpio_shadow engine1 ! i) \<and>
        (\<forall>i. length (gpio_shadow engine1) - 1 \<le> i \<and> i < length (gpio_shadow s2)
            \<longrightarrow> gpio_shadow s2 ! i = clock_slot (clock_gpio engine1) i)"
    by blast
  have p3: "gpio_shadow s2 ! 3 = gpio_shadow engine1 ! 3"
    using conjunct1[OF g] l by simp
  have p4: "gpio_shadow s2 ! 20 = clock_slot (clock_gpio engine1) 20"
    using conjunct2[OF g] l l2 by simp
  show ?thesis
    by (intro conjI exI[of _ s1] exI[of _ s2] exI[of _ "engine1\<lparr>gpio := [24, 23, 18]\<rparr>"]
        engine1_reachable p0 p1 e p2 r p3 p4 nl r1 p5)
qed

text \<open>
  C10. On a reachable engine, when a registration with a capacity \<open>b'\<close> above the
  current one returns failure, the failure is the answer of the pin-configuration
  collaborator, and the engine left behind is the grown one: its capacity is \<open>b'\<close>, its
  buffer has the new number of slots and the new size in bytes, the old slots are kept,
  the slots from the old last slot on carry the clock pre-pattern, and it is a reachable
  state, the one every channel goes on with. With \<open>16 * b' + 1\<close> in the range of \<^verbatim>\<open>int\<close>
  the buffer is strictly longer than before, and when moreover the engine has not been
  finalised, the heap serves the request and the collaborator refuses the pin, the
  registration does return failure.
\<close>

theorem registration_not_atomic:
  assumes "reachable A s" and "serial_byte_size s < b'"
  shows "(\<forall>s'. RegisterDataGPIO A hp s pin b' = Inr (False, s') \<longrightarrow>
        \<not> fst (A (gpio s) pin) \<and> serial_byte_size s' = b' \<and>
        length (gpio_shadow s') = nat (bytes_to_gpio_ops b') \<and>
        length (gpio_shadow s) \<le> length (gpio_shadow s') \<and>
        gpio_buffer_size s'
          = Some (word_of_int (bytes_to_gpio_ops b') * word_of_nat sizeof_GPIOData) \<and>
        (\<forall>i < length (gpio_shadow s). gpio_shadow s' ! i = gpio_shadow s ! i) \<and>
        (\<forall>i. length (gpio_shadow s) - 1 \<le> i \<and> i < length (gpio_shadow s')
            \<longrightarrow> gpio_shadow s' ! i = clock_slot (clock_gpio s) i) \<and>
        reachable A s' \<and>
        (16 * unat b' + 1 < 2 ^ 31 \<longrightarrow>
           length (gpio_shadow s') = 16 * unat b' + 1 \<and>
           length (gpio_shadow s) < length (gpio_shadow s'))) \<and>
     (gpio_dma s = None \<and> valid_shift (clock_gpio s) \<and> (\<forall>sz. hp sz \<noteq> None) \<and>
      16 * unat b' + 1 < 2 ^ 31 \<and> \<not> fst (A (gpio s) pin) \<longrightarrow>
        (\<exists>s'. RegisterDataGPIO A hp s pin b' = Inr (False, s')))"
proof (intro conjI allI impI)
  fix s' assume r: "RegisterDataGPIO A hp s pin b' = Inr (False, s')"
  from r assms(2) obtain s1 where g: "grow_timeline hp s b' = Inr s1"
    and f: "gpio_shadow s' = gpio_shadow s1" "serial_byte_size s' = b'"
      "clock_gpio s' = clock_gpio s" "False = fst (A (gpio s) pin)"
      "gpio_buffer_size s' = gpio_buffer_size s1"
    by (rule register_grown)
  note G = grow_timeline_Inr[OF g reachable_old[OF assms(1)]]
  note R = register_growth_general[OF assms r]
  show "\<not> fst (A (gpio s) pin)" using f(4) by simp
  show "serial_byte_size s' = b'" by (rule f(2))
  show "length (gpio_shadow s') = nat (bytes_to_gpio_ops b')" by (rule R(3))
  show "length (gpio_shadow s) \<le> length (gpio_shadow s')" by (rule R(4))
  show "gpio_buffer_size s'
          = Some (word_of_int (bytes_to_gpio_ops b') * word_of_nat sizeof_GPIOData)"
    using G(12) by (simp only: f(5))
  show "reachable A s'"
    using assms(1) r by (rule reachable.registered)
  {
    fix i assume "i < length (gpio_shadow s)"
    then show "gpio_shadow s' ! i = gpio_shadow s ! i" using R(1) by simp
  }
  {
    fix i assume "length (gpio_shadow s) - 1 \<le> i \<and> i < length (gpio_shadow s')"
    then show "gpio_shadow s' ! i = clock_slot (clock_gpio s) i" using R(2) by simp
  }
  {
    assume rg: "16 * unat b' + 1 < 2 ^ 31"
    show len: "length (gpio_shadow s') = 16 * unat b' + 1" by (rule R(5)[OF rg])
    show "length (gpio_shadow s) < length (gpio_shadow s')"
    proof (cases "serial_byte_size s = 0")
      case True
      with reachable_inv[OF assms(1)] have "length (gpio_shadow s) = 0"
        by (simp add: timeline_inv_def)
      then show ?thesis by (simp only: len)
    next
      case False
      have "unat (serial_byte_size s) < unat b'"
        using assms(2) by (simp add: word_less_nat_alt)
      then have "16 * unat (serial_byte_size s) + 1 < 16 * unat b' + 1" by simp
      then show ?thesis by (simp only: len R(6)[OF rg False])
    qed
  }
next
  assume a: "gpio_dma s = None \<and> valid_shift (clock_gpio s) \<and> (\<forall>sz. hp sz \<noteq> None) \<and>
      16 * unat b' + 1 < 2 ^ 31 \<and> \<not> fst (A (gpio s) pin)"
  then have hp: "\<And>sz. hp sz \<noteq> None" by simp
  have "\<exists>s'. RegisterDataGPIO A hp s pin b' = Inr (fst (A (gpio s) pin), s')"
    using a hp assms(2) by (intro register_total) simp_all
  then show "\<exists>s'. RegisterDataGPIO A hp s pin b' = Inr (False, s')"
    using a by auto
qed

theorem registration_not_atomic_witness:
  "reachable ex_AddOutput engine1 \<and> serial_byte_size engine1 < 2 \<and>
   gpio_dma engine1 = None \<and> valid_shift (clock_gpio engine1) \<and>
   16 * unat (2::size_t) + 1 < 2 ^ 31 \<and> \<not> fst (ex_AddOutput (gpio engine1) 99) \<and>
   (\<exists>s'. RegisterDataGPIO ex_AddOutput ex_heap engine1 99 2 = Inr (False, s') \<and>
     serial_byte_size s' = 2 \<and>
     length (gpio_shadow s') = 16 * unat (2::size_t) + 1 \<and>
     length (gpio_shadow engine1) < length (gpio_shadow s') \<and>
     gpio_buffer_size s'
       = Some (word_of_int (bytes_to_gpio_ops 2) * word_of_nat sizeof_GPIOData) \<and>
     gpio_shadow s' ! 3 = gpio_shadow engine1 ! 3 \<and>
     gpio_shadow s' ! 20 = clock_slot (clock_gpio engine1) 20 \<and>
     reachable ex_AddOutput s')"
proof -
  have h: "serial_byte_size engine1 < 2" "gpio_dma engine1 = None"
    "valid_shift (clock_gpio engine1)" "16 * unat (2::size_t) + 1 < 2 ^ 31"
    "\<not> fst (ex_AddOutput (gpio engine1) 99)"
    by (simp_all add: engine1_def valid_shift_def ex_AddOutput_def)
  have hp: "\<forall>sz. ex_heap sz \<noteq> None" by (simp add: ex_heap_total)
  note t = registration_not_atomic[OF engine1_reachable h(1), of ex_heap 99]
  from conjunct2[OF t] h hp
  obtain s' where r: "RegisterDataGPIO ex_AddOutput ex_heap engine1 99 2 = Inr (False, s')"
    by blast
  from conjunct1[OF t] r
  have p: "serial_byte_size s' = 2"
    "gpio_buffer_size s' = Some (word_of_int (bytes_to_gpio_ops 2) * word_of_nat sizeof_GPIOData)"
    "\<forall>i < length (gpio_shadow engine1). gpio_shadow s' ! i = gpio_shadow engine1 ! i"
    "\<forall>i. length (gpio_shadow engine1) - 1 \<le> i \<and> i < length (gpio_shadow s')
        \<longrightarrow> gpio_shadow s' ! i = clock_slot (clock_gpio engine1) i"
    "reachable ex_AddOutput s'"
    "16 * unat (2::size_t) + 1 < 2 ^ 31 \<longrightarrow>
           length (gpio_shadow s') = 16 * unat (2::size_t) + 1 \<and>
           length (gpio_shadow engine1) < length (gpio_shadow s')"
    by blast+
  have l: "length (gpio_shadow s') = 16 * unat (2::size_t) + 1"
    "length (gpio_shadow engine1) < length (gpio_shadow s')"
    using p(6) h(4) by blast+
  have l1: "length (gpio_shadow engine1) = 17" by (simp add: engine1_def)
  have q3: "gpio_shadow s' ! 3 = gpio_shadow engine1 ! 3"
    using p(3) l1 by simp
  have q20: "gpio_shadow s' ! 20 = clock_slot (clock_gpio engine1) 20"
    using p(4) l(1) l1 by simp
  show ?thesis
    by (intro conjI exI[of _ s'] engine1_reachable h r p(1) l p(2) q3 q20 p(5))
qed

section \<open>The descriptor chain\<close>

lemma kMaxOpsPerBlock_eq: "kMaxOpsPerBlock = 4096"
  by (simp add: kMaxOpsPerBlock_def sizeof_GPIOData_def)

lemma chain_loop_general:
  assumes "length cbs = nat i" "0 \<le> i" "i \<le> n"
    "previous = (if i = 0 then None else Some (nat i - 1))"
  shows "length (chain_loop P n i previous st rm cbs) = nat n \<and>
    (\<forall>j < nat n.
       (j < nat i \<longrightarrow> (chain_loop P n i previous st rm cbs ! j)\<lparr>next_cb := None\<rparr>
                          = (cbs ! j)\<lparr>next_cb := None\<rparr>) \<and>
       (nat i \<le> j \<longrightarrow> stride_d (chain_loop P n i previous st rm cbs ! j) = - 16 \<and>
                    stride_s (chain_loop P n i previous st rm cbs ! j) = 0 \<and>
                    length_x (chain_loop P n i previous st rm cbs ! j) = sizeof_GPIOData \<and>
                    dst (chain_loop P n i previous st rm cbs ! j)
                      = PHYSICAL_GPIO_BUS + GPIO_SET_OFFSET) \<and>
       (Suc j < nat i \<longrightarrow> next_cb (chain_loop P n i previous st rm cbs ! j) = next_cb (cbs ! j)) \<and>
       (nat i \<le> Suc j \<and> Suc j < nat n \<longrightarrow>
          next_cb (chain_loop P n i previous st rm cbs ! j)
            = Some (UncachedMemBlock_to_physical P (int (Suc j) * int (sizeof_dma_cb P)))))"
  using assms
proof (induction P n i previous st rm cbs rule: chain_loop.induct)
  case (1 P control_blocks i previous start_gpio remaining cbs)
  show ?case
  proof (cases "i < control_blocks")
    case False
    with "1.prems" have e: "i = control_blocks" by simp
    have r: "chain_loop P control_blocks i previous start_gpio remaining cbs = cbs"
      using False by (subst chain_loop.simps) simp
    show ?thesis
      unfolding r using "1.prems"(1) e by auto
  next
    case True
    define cbs1 where "cbs1 = (case previous of
                       None \<Rightarrow> cbs
                     | Some p \<Rightarrow>
                         cbs[p := (cbs ! p)\<lparr>next_cb :=
                           Some (UncachedMemBlock_to_physical P (i * int (sizeof_dma_cb P)))\<rparr>])"
    define n where "n = (if remaining > kMaxOpsPerBlock then kMaxOpsPerBlock else remaining)"
    define cb where "cb = \<lparr>info = [''DMA_CB_TI_SRC_INC'', ''DMA_CB_TI_DEST_INC'',
                          ''DMA_CB_TI_NO_WIDE_BURSTS'', ''DMA_CB_TI_TDMODE''],
                   src = UncachedMemBlock_to_physical P
                           (control_blocks * int (sizeof_dma_cb P)
                            + start_gpio * int sizeof_GPIOData),
                   dst = PHYSICAL_GPIO_BUS + GPIO_SET_OFFSET,
                   length_y = n,
                   length_x = sizeof_GPIOData,
                   stride_d = - 16,
                   stride_s = 0,
                   next_cb = None\<rparr>"
    let ?r = "chain_loop P control_blocks (i + 1) (Some (length cbs1)) (start_gpio + n)
                (remaining - n) (cbs1 @ [cb])"
    have unfold: "chain_loop P control_blocks i previous start_gpio remaining cbs = ?r"
      using True by (subst chain_loop.simps) (simp add: cbs1_def n_def cb_def Let_def)
    have l1: "length cbs1 = nat i"
      using "1.prems"(1) by (simp add: cbs1_def split: option.splits)
    have c1: "(cbs1 ! j)\<lparr>next_cb := None\<rparr> = (cbs ! j)\<lparr>next_cb := None\<rparr>" if "j < nat i" for j
    proof (cases previous)
      case None
      then show ?thesis by (simp add: cbs1_def)
    next
      case (Some a)
      show ?thesis
      proof (cases "j = a")
        case True
        with that "1.prems"(1) show ?thesis by (simp add: cbs1_def Some)
      next
        case False
        then show ?thesis by (simp add: cbs1_def Some)
      qed
    qed
    have c2: "next_cb (cbs1 ! j) = next_cb (cbs ! j)" if "Suc j < nat i" for j
      using that "1.prems"(1,4) by (cases "i = 0") (auto simp: cbs1_def nth_list_update)
    have c3: "next_cb (cbs1 ! j) = Some (UncachedMemBlock_to_physical P (int (Suc j) * int (sizeof_dma_cb P)))"
      if "Suc j = nat i" for j
    proof -
      from that have "i \<noteq> 0" "int (Suc j) = i" "nat i - 1 = j" by auto
      with "1.prems"(1,4) that show ?thesis
        by (simp add: cbs1_def)
    qed
    have IH: "length ?r = nat control_blocks \<and>
      (\<forall>j < nat control_blocks.
       (j < nat (i + 1) \<longrightarrow> (?r ! j)\<lparr>next_cb := None\<rparr> = ((cbs1 @ [cb]) ! j)\<lparr>next_cb := None\<rparr>) \<and>
       (nat (i + 1) \<le> j \<longrightarrow> stride_d (?r ! j) = - 16 \<and> stride_s (?r ! j) = 0 \<and>
                    length_x (?r ! j) = sizeof_GPIOData \<and>
                    dst (?r ! j) = PHYSICAL_GPIO_BUS + GPIO_SET_OFFSET) \<and>
       (Suc j < nat (i + 1) \<longrightarrow> next_cb (?r ! j) = next_cb ((cbs1 @ [cb]) ! j)) \<and>
       (nat (i + 1) \<le> Suc j \<and> Suc j < nat control_blocks \<longrightarrow>
          next_cb (?r ! j)
            = Some (UncachedMemBlock_to_physical P (int (Suc j) * int (sizeof_dma_cb P)))))"
    proof (rule "1.IH"[OF True cbs1_def n_def cb_def])
      show "length (cbs1 @ [cb]) = nat (i + 1)"
        using l1 "1.prems"(2) by (simp add: nat_add_distrib)
      show "0 \<le> i + 1" using "1.prems"(2) by simp
      show "i + 1 \<le> control_blocks" using True by simp
      show "Some (length cbs1) = (if i + 1 = 0 then None else Some (nat (i + 1) - 1))"
        using l1 "1.prems"(2) by (simp add: nat_add_distrib)
    qed
    have ni: "nat (i + 1) = Suc (nat i)"
      using "1.prems"(2) by (simp add: nat_add_distrib)
    show ?thesis
      unfolding unfold
    proof (intro conjI allI impI)
      show "length ?r = nat control_blocks" using IH by simp
    next
      fix j assume j: "j < nat control_blocks" and lt: "j < nat i"
      then have "(?r ! j)\<lparr>next_cb := None\<rparr> = ((cbs1 @ [cb]) ! j)\<lparr>next_cb := None\<rparr>"
        using IH by (simp add: ni)
      also have "(cbs1 @ [cb]) ! j = cbs1 ! j"
        using lt l1 by (simp add: nth_append)
      finally show "(?r ! j)\<lparr>next_cb := None\<rparr> = (cbs ! j)\<lparr>next_cb := None\<rparr>"
        using c1[OF lt] by simp
    next
      fix j assume j: "j < nat control_blocks" and ge: "nat i \<le> j"
      have st: "stride_d (?r ! j) = - 16 \<and> stride_s (?r ! j) = 0 \<and>
            length_x (?r ! j) = sizeof_GPIOData \<and> dst (?r ! j) = PHYSICAL_GPIO_BUS + GPIO_SET_OFFSET"
      proof (cases "j = nat i")
        case True
        then have "(?r ! j)\<lparr>next_cb := None\<rparr> = ((cbs1 @ [cb]) ! j)\<lparr>next_cb := None\<rparr>"
          using IH j by (simp add: ni)
        also have "(cbs1 @ [cb]) ! j = cb"
          using True l1 by (simp add: nth_append)
        finally have e: "(?r ! j)\<lparr>next_cb := None\<rparr> = cb\<lparr>next_cb := None\<rparr>" .
        have "stride_d ((?r ! j)\<lparr>next_cb := None\<rparr>) = - 16 \<and> stride_s ((?r ! j)\<lparr>next_cb := None\<rparr>) = 0 \<and>
            length_x ((?r ! j)\<lparr>next_cb := None\<rparr>) = sizeof_GPIOData \<and>
            dst ((?r ! j)\<lparr>next_cb := None\<rparr>) = PHYSICAL_GPIO_BUS + GPIO_SET_OFFSET"
          unfolding e by (simp add: cb_def)
        then show ?thesis by simp
      next
        case False
        with ge have "nat (i + 1) \<le> j" by (simp add: ni)
        with IH j show ?thesis by simp
      qed
      show "stride_d (?r ! j) = - 16" using st by simp
      show "stride_s (?r ! j) = 0" using st by simp
      show "length_x (?r ! j) = sizeof_GPIOData" using st by simp
      show "dst (?r ! j) = PHYSICAL_GPIO_BUS + GPIO_SET_OFFSET" using st by simp
    next
      fix j assume j: "j < nat control_blocks" and lt: "Suc j < nat i"
      then have "next_cb (?r ! j) = next_cb ((cbs1 @ [cb]) ! j)"
        using IH by (simp add: ni)
      also have "(cbs1 @ [cb]) ! j = cbs1 ! j"
        using lt l1 by (simp add: nth_append)
      finally show "next_cb (?r ! j) = next_cb (cbs ! j)"
        using c2[OF lt] by simp
    next
      fix j assume j: "j < nat control_blocks" and a: "nat i \<le> Suc j \<and> Suc j < nat control_blocks"
      show "next_cb (?r ! j) = Some (UncachedMemBlock_to_physical P (int (Suc j) * int (sizeof_dma_cb P)))"
      proof (cases "Suc j = nat i")
        case True
        then have "next_cb (?r ! j) = next_cb ((cbs1 @ [cb]) ! j)"
          using IH j by (simp add: ni)
        also have "(cbs1 @ [cb]) ! j = cbs1 ! j"
          using True l1 by (simp add: nth_append)
        finally show ?thesis using c3[OF True] by simp
      next
        case False
        with a have "nat (i + 1) \<le> Suc j \<and> Suc j < nat control_blocks" by (simp add: ni)
        with IH j show ?thesis by simp
      qed
    qed
  qed
qed

lemma ceiling_blocks: "\<lceil>real_of_int N / real_of_int kMaxOpsPerBlock\<rceil> = (N + 4095) div 4096"
proof -
  define k where "k = (N + 4095) div 4096"
  have lo: "4096 * k \<le> N + 4095"
    unfolding k_def by linarith
  have hi: "N + 4095 < 4096 * k + 4096"
    unfolding k_def by linarith
  have i: "4096 * (k - 1) < N" "N \<le> 4096 * k"
    using lo hi by simp_all
  have "real_of_int (4096 * (k - 1)) < real_of_int N" "real_of_int N \<le> real_of_int (4096 * k)"
    using i by (simp_all only: of_int_less_iff of_int_le_iff)
  then have "real_of_int k - 1 < real_of_int N / 4096" "real_of_int N / 4096 \<le> real_of_int k"
    by (simp_all add: field_simps)
  then have "\<lceil>real_of_int N / 4096\<rceil> = k"
    by (simp add: ceiling_eq_iff)
  then show ?thesis
    by (simp add: kMaxOpsPerBlock_eq k_def)
qed

lemma c_div_pos:
  assumes "0 < c_div a 4096"
  shows "0 < a" "c_div a 4096 = a div 4096"
proof -
  show "0 < a"
  proof (rule ccontr)
    assume "\<not> 0 < a"
    then have "sgn a * sgn (4096::int) * (\<bar>a\<bar> div \<bar>4096\<bar>) \<le> 0"
      by (cases "a = 0") (simp_all add: mult_le_0_iff)
    with assms show False by (simp add: c_div_def)
  qed
  then show "c_div a 4096 = a div 4096"
    by (simp add: c_div_def)
qed

lemma FinishRegistration_Inr:
  fixes N cbn cbs
  assumes "FinishRegistration P s = Inr s'"
    and N_def: "N = bytes_to_gpio_ops (serial_byte_size s)"
    and cbn_def: "cbn = (N + 4095) div 4096"
    and cbs_def: "cbs = chain_loop P cbn 0 None 0 N []"
  shows "0 < cbn" "alloced_mem s = None"
    "alloced_mem s' = Some (cbs[length cbs - 1 := (last cbs)\<lparr>next_cb := Some 0\<rparr>])"
proof -
  let ?c = "c_div (N + kMaxOpsPerBlock - 1) kMaxOpsPerBlock"
  from assms(1) show "alloced_mem s = None"
    by (simp add: FinishRegistration_def split: if_splits)
  from assms(1) have pos: "0 < ?c"
    by (simp add: FinishRegistration_def Let_def N_def split: if_splits)
  have "N + kMaxOpsPerBlock - 1 = N + 4095"
    by (simp add: kMaxOpsPerBlock_eq)
  with pos have c: "?c = cbn"
    using c_div_pos(2)[of "N + 4095"] by (simp only: kMaxOpsPerBlock_eq cbn_def)
  with pos show "0 < cbn" by simp
  from assms(1) have "alloced_mem s' = Some (let cbs = chain_loop P ?c 0 None 0 N []
      in cbs[length cbs - 1 := (last cbs)\<lparr>next_cb := Some 0\<rparr>])"
    by (auto simp: FinishRegistration_def Let_def N_def split: if_splits)
  then show "alloced_mem s' = Some (cbs[length cbs - 1 := (last cbs)\<lparr>next_cb := Some 0\<rparr>])"
    by (simp add: c cbs_def Let_def)
qed

lemma FinishRegistration_chain:
  assumes "FinishRegistration P s = Inr s'"
  obtains cbs where "alloced_mem s' = Some cbs"
    "int (length cbs) = (bytes_to_gpio_ops (serial_byte_size s) + 4095) div 4096"
    "cbs \<noteq> []"
    "\<And>j. j < length cbs \<Longrightarrow> stride_d (cbs ! j) = - 16 \<and> stride_s (cbs ! j) = 0 \<and>
        length_x (cbs ! j) = sizeof_GPIOData \<and> dst (cbs ! j) = PHYSICAL_GPIO_BUS + GPIO_SET_OFFSET"
    "\<And>j. Suc j < length cbs \<Longrightarrow> next_cb (cbs ! j)
        = Some (UncachedMemBlock_to_physical P (int (Suc j) * int (sizeof_dma_cb P)))"
    "next_cb (last cbs) = Some 0"
proof -
  define N where "N = bytes_to_gpio_ops (serial_byte_size s)"
  define cbn where "cbn = (N + 4095) div 4096"
  define cbs where "cbs = chain_loop P cbn 0 None 0 N []"
  define fin where "fin = cbs[length cbs - 1 := (last cbs)\<lparr>next_cb := Some 0\<rparr>]"
  note F = FinishRegistration_Inr[OF assms N_def cbn_def cbs_def, folded fin_def]
  have "length ([]::dma_cb list) = nat 0" "(0::int) \<le> 0" "0 \<le> cbn"
    "None = (if (0::int) = 0 then None else Some (nat 0 - 1))"
    using F(1) by simp_all
  note C = chain_loop_general[OF this, of P 0 N, folded cbs_def]
  have len: "length cbs = nat cbn" using C by simp
  have ne: "cbs \<noteq> []" using len F(1) by auto
  have lf: "length fin = nat cbn" by (simp add: fin_def len)
  have last_i: "last cbs = cbs ! (length cbs - 1)"
    using ne by (rule last_conv_nth)
  show ?thesis
  proof (rule that[of fin])
    show "alloced_mem s' = Some fin" by (rule F(3))
    show "int (length fin) = (bytes_to_gpio_ops (serial_byte_size s) + 4095) div 4096"
      using F(1) by (simp add: lf cbn_def N_def)
    show "fin \<noteq> []" using lf F(1) by auto
    show "stride_d (fin ! j) = - 16 \<and> stride_s (fin ! j) = 0 \<and>
        length_x (fin ! j) = sizeof_GPIOData \<and> dst (fin ! j) = PHYSICAL_GPIO_BUS + GPIO_SET_OFFSET"
      if "j < length fin" for j
    proof -
      from that have j: "j < nat cbn" by (simp add: lf)
      with C have "stride_d (cbs ! j) = - 16 \<and> stride_s (cbs ! j) = 0 \<and>
        length_x (cbs ! j) = sizeof_GPIOData \<and> dst (cbs ! j) = PHYSICAL_GPIO_BUS + GPIO_SET_OFFSET"
        by simp
      then show ?thesis
        using j len by (cases "j = length cbs - 1") (simp_all add: fin_def last_i)
    qed
    show "next_cb (fin ! j) = Some (UncachedMemBlock_to_physical P (int (Suc j) * int (sizeof_dma_cb P)))"
      if "Suc j < length fin" for j
    proof -
      from that have j: "j < nat cbn" "Suc j < nat cbn" by (simp_all add: lf)
      with C have "next_cb (cbs ! j)
          = Some (UncachedMemBlock_to_physical P (int (Suc j) * int (sizeof_dma_cb P)))"
        by simp
      moreover have "j \<noteq> length cbs - 1" using j len by simp
      ultimately show ?thesis by (simp add: fin_def)
    qed
    show "next_cb (last fin) = Some 0"
    proof -
      have "last fin = fin ! (length fin - 1)"
        using lf F(1) by (intro last_conv_nth) auto
      then show ?thesis
        using ne by (simp add: fin_def)
    qed
  qed
qed

section \<open>Claims about the descriptor builder\<close>

lemma FinishRegistration_total:
  assumes "alloced_mem s = None"
    and "1 \<le> bytes_to_gpio_ops (serial_byte_size s)"
    and "bytes_to_gpio_ops (serial_byte_size s) < 2 ^ 26"
    and "sizeof_dma_cb P \<le> 4096"
    and "\<And>n. UncachedMemBlock_alloc P n"
  shows "\<exists>s'. FinishRegistration P s = Inr s'"
proof -
  define N where "N = bytes_to_gpio_ops (serial_byte_size s)"
  define c where "c = c_div (N + kMaxOpsPerBlock - 1) kMaxOpsPerBlock"
  have N: "1 \<le> N" "N < 2 ^ 26" using assms(2,3) by (simp_all add: N_def)
  have c: "c = (N + 4095) div 4096"
    using N by (simp add: c_def c_div_def kMaxOpsPerBlock_eq)
  have cpos: "0 < c" "c \<le> 2 ^ 14 + 1"
    using N unfolding c by simp_all
  have "0 \<le> c * int (sizeof_dma_cb P)"
    using cpos by simp
  moreover have "c * int (sizeof_dma_cb P) \<le> (2 ^ 14 + 1) * 4096"
    by (rule mult_mono) (use cpos assms(4) in simp_all)
  ultimately have a: "\<not> (c * int (sizeof_dma_cb P) + N * int sizeof_GPIOData < 0
              \<or> 2 ^ 31 \<le> c * int (sizeof_dma_cb P) + N * int sizeof_GPIOData)"
    using N by (simp add: sizeof_GPIOData_def)
  have o: "\<not> 2 ^ 31 \<le> N + kMaxOpsPerBlock - 1"
    using N by (simp add: kMaxOpsPerBlock_eq)
  show ?thesis
    using assms(1,5) a o cpos(1)
    unfolding FinishRegistration_def Let_def N_def[symmetric] c_def[symmetric]
    by simp
qed

text \<open>
  C7, amended. When \<^verbatim>\<open>FinishRegistration\<close> returns, it has built as many control blocks
  as the ceiling of \<open>N\<close> divided by \<^verbatim>\<open>kMaxOpsPerBlock\<close>, where \<open>N\<close> is what
  \<^verbatim>\<open>bytes_to_gpio_ops\<close> gives for the capacity. For a reachable engine with a positive
  capacity \<open>N\<close> is the number of slots of the timeline. For a reachable engine with the
  capacity 0 the timeline is empty, \<open>N\<close> is 1 all the same, and one control block is
  built. Every control block but the last holds in \<^verbatim>\<open>next\<close> the physical address of the
  control block that follows it in the block of memory, and \<^verbatim>\<open>next\<close> of the last one
  is 0.
\<close>

theorem descriptor_chain_shape:
  assumes "FinishRegistration P s = Inr s'"
  shows "\<exists>cbs. alloced_mem s' = Some cbs \<and>
     int (length cbs)
       = \<lceil>real_of_int (bytes_to_gpio_ops (serial_byte_size s)) / real_of_int kMaxOpsPerBlock\<rceil> \<and>
     (reachable A s \<and> serial_byte_size s \<noteq> 0 \<longrightarrow>
        int (length cbs)
          = \<lceil>real_of_int (int (length (gpio_shadow s))) / real_of_int kMaxOpsPerBlock\<rceil>) \<and>
     (reachable A s \<and> serial_byte_size s = 0 \<longrightarrow> gpio_shadow s = [] \<and> length cbs = 1) \<and>
     (\<forall>i. Suc i < length cbs \<longrightarrow>
        next_cb (cbs ! i)
          = Some (UncachedMemBlock_to_physical P (int (Suc i) * int (sizeof_dma_cb P)))) \<and>
     cbs \<noteq> [] \<and> next_cb (last cbs) = Some 0"
proof -
  let ?N = "bytes_to_gpio_ops (serial_byte_size s)"
  from assms obtain cbs where C: "alloced_mem s' = Some cbs"
    "int (length cbs) = (?N + 4095) div 4096"
    "cbs \<noteq> []"
    "\<And>j. Suc j < length cbs \<Longrightarrow> next_cb (cbs ! j)
        = Some (UncachedMemBlock_to_physical P (int (Suc j) * int (sizeof_dma_cb P)))"
    "next_cb (last cbs) = Some 0"
    by (rule FinishRegistration_chain) blast
  have len: "int (length cbs) = \<lceil>real_of_int ?N / real_of_int kMaxOpsPerBlock\<rceil>"
    by (simp only: C(2) ceiling_blocks)
  have "0 < (?N + 4095) div 4096"
    using C(2,3) by (cases cbs) simp_all
  then have Npos: "0 \<le> ?N"
    by linarith
  have tl: "int (length cbs)
          = \<lceil>real_of_int (int (length (gpio_shadow s))) / real_of_int kMaxOpsPerBlock\<rceil>"
    if "reachable A s \<and> serial_byte_size s \<noteq> 0"
  proof -
    from that reachable_inv[of A s] have "length (gpio_shadow s) = nat ?N"
      by (simp add: timeline_inv_def)
    with Npos have "int (length (gpio_shadow s)) = ?N" by simp
    then show ?thesis by (simp only: len)
  qed
  have em: "gpio_shadow s = [] \<and> length cbs = 1"
    if "reachable A s \<and> serial_byte_size s = 0"
  proof -
    from that reachable_inv[of A s] have "gpio_shadow s = []"
      by (simp add: timeline_inv_def)
    moreover from that C(2) have "int (length cbs) = 1"
      by (simp add: ops_zero)
    ultimately show ?thesis by simp
  qed
  show ?thesis
    using tl em by (intro exI[of _ cbs] conjI allI impI C(1) len C(3) C(4) C(5)) simp_all
qed

text \<open>
  C8, amended. In every control block that \<^verbatim>\<open>FinishRegistration\<close> builds the destination
  stride is the negative of the size of a slot, \<open>- 16\<close> (the row length \<^verbatim>\<open>XLENGTH\<close> is the
  same 16 bytes and the source stride is 0), and the destination is the pin-set
  register: the stride takes the destination back to the pin-set register after each
  slot. Within the 16 bytes of a slot the \<^verbatim>\<open>clr\<close> field lies 12 bytes behind the \<^verbatim>\<open>set\<close>
  field, which is the distance from the pin-set to the pin-clear register.
\<close>

theorem descriptor_stride:
  assumes "FinishRegistration P s = Inr s'"
  shows "\<exists>cbs. alloced_mem s' = Some cbs \<and>
     (\<forall>cb \<in> set cbs. stride_d cb = - int sizeof_GPIOData \<and> stride_s cb = 0 \<and>
         length_x cb = sizeof_GPIOData \<and> dst cb = PHYSICAL_GPIO_BUS + GPIO_SET_OFFSET) \<and>
     GPIO_SET_OFFSET + word_of_nat offsetof_clr = GPIO_CLR_OFFSET \<and>
     offsetof_clr < sizeof_GPIOData"
proof -
  from assms obtain cbs where C: "alloced_mem s' = Some cbs"
    "\<And>j. j < length cbs \<Longrightarrow> stride_d (cbs ! j) = - 16 \<and> stride_s (cbs ! j) = 0 \<and>
        length_x (cbs ! j) = sizeof_GPIOData \<and> dst (cbs ! j) = PHYSICAL_GPIO_BUS + GPIO_SET_OFFSET"
    by (rule FinishRegistration_chain) blast
  have "stride_d cb = - int sizeof_GPIOData \<and> stride_s cb = 0 \<and>
         length_x cb = sizeof_GPIOData \<and> dst cb = PHYSICAL_GPIO_BUS + GPIO_SET_OFFSET"
    if "cb \<in> set cbs" for cb
  proof -
    from that obtain j where "j < length cbs" "cb = cbs ! j"
      by (auto simp: in_set_conv_nth)
    with C(2)[of j] show ?thesis by (simp add: sizeof_GPIOData_def)
  qed
  moreover have "GPIO_SET_OFFSET + word_of_nat offsetof_clr = GPIO_CLR_OFFSET"
    "offsetof_clr < sizeof_GPIOData"
    by (simp_all add: GPIO_SET_OFFSET_def GPIO_CLR_OFFSET_def offsetof_clr_def sizeof_GPIOData_def)
  ultimately show ?thesis
    using C(1) by blast
qed

lemma register_keeps_alloc:
  assumes "RegisterDataGPIO A hp s gp n = Inr (ok, s')"
  shows "alloced_mem s' = alloced_mem s"
  using assms
proof (cases rule: RegisterDataGPIO_Inr)
  case same
  then show ?thesis by simp
next
  case (grown s1)
  from grown(3) have "alloced_mem s1 = alloced_mem s"
    by (auto simp: grow_timeline_def Let_def split: option.splits sum.splits)
  with grown(4) show ?thesis by simp
qed

lemma engine256:
  obtains s where "RegisterDataGPIO ex_AddOutput ex_heap engine0 23 256 = Inr (True, s)"
    "reachable ex_AddOutput s" "serial_byte_size s = 256" "alloced_mem s = None"
    "bytes_to_gpio_ops (serial_byte_size s) = 4097"
proof -
  have "\<exists>s. RegisterDataGPIO ex_AddOutput ex_heap engine0 23 256
          = Inr (fst (ex_AddOutput (gpio engine0) 23), s)"
    by (rule register_total) (simp_all add: engine0_def ex_heap_total valid_shift_def)
  then obtain s where r: "RegisterDataGPIO ex_AddOutput ex_heap engine0 23 256 = Inr (True, s)"
    by (auto simp: engine0_def ex_AddOutput_def)
  have lt: "serial_byte_size engine0 < 256" by (simp add: engine0_def)
  from r lt obtain s1 where "grow_timeline ex_heap engine0 256 = Inr s1"
    and b: "serial_byte_size s = 256"
    by (rule register_grown)
  show ?thesis
  proof (rule that[of s])
    show "RegisterDataGPIO ex_AddOutput ex_heap engine0 23 256 = Inr (True, s)" by (rule r)
    show "reachable ex_AddOutput s"
      using engine0_reachable r by (rule reachable.registered)
    show "serial_byte_size s = 256" by (rule b)
    show "alloced_mem s = None"
      using register_keeps_alloc[OF r] by (simp add: engine0_def)
    show "bytes_to_gpio_ops (serial_byte_size s) = 4097"
      by (simp add: b bytes_to_gpio_ops_def)
  qed
qed

lemma ex_platform_simps:
  "sizeof_dma_cb ex_platform = 32" "UncachedMemBlock_alloc ex_platform n"
  "UncachedMemBlock_to_physical ex_platform off = 0xC0000000 + word_of_int off"
  by (simp_all add: ex_platform_def)

lemma engine0_finish: "\<exists>s'. FinishRegistration ex_platform engine0 = Inr s'"
  by (rule FinishRegistration_total)
     (simp_all add: engine0_def ops_zero ex_platform_simps)

theorem descriptor_chain_shape_witness:
  "(\<exists>s s' cbs. RegisterDataGPIO ex_AddOutput ex_heap engine0 23 256 = Inr (True, s) \<and>
     reachable ex_AddOutput s \<and> serial_byte_size s \<noteq> 0 \<and>
     FinishRegistration ex_platform s = Inr s' \<and>
     alloced_mem s' = Some cbs \<and>
     int (length cbs)
       = \<lceil>real_of_int (bytes_to_gpio_ops (serial_byte_size s)) / real_of_int kMaxOpsPerBlock\<rceil> \<and>
     int (length cbs)
       = \<lceil>real_of_int (int (length (gpio_shadow s))) / real_of_int kMaxOpsPerBlock\<rceil> \<and>
     length cbs = 2 \<and>
     next_cb (cbs ! 0) = Some (UncachedMemBlock_to_physical ex_platform (int (Suc 0) * int (sizeof_dma_cb ex_platform))) \<and>
     next_cb (cbs ! 0) = Some 0xC0000020 \<and>
     next_cb (last cbs) = Some 0) \<and>
   (\<exists>s' cbs. reachable ex_AddOutput engine0 \<and> serial_byte_size engine0 = 0 \<and>
     FinishRegistration ex_platform engine0 = Inr s' \<and>
     alloced_mem s' = Some cbs \<and>
     gpio_shadow engine0 = [] \<and> length cbs = 1 \<and> next_cb (last cbs) = Some 0)"
proof (rule conjI)
  obtain s where s: "RegisterDataGPIO ex_AddOutput ex_heap engine0 23 256 = Inr (True, s)"
    "reachable ex_AddOutput s" "serial_byte_size s = 256" "alloced_mem s = None"
    "bytes_to_gpio_ops (serial_byte_size s) = 4097"
    by (rule engine256)
  have "\<exists>s'. FinishRegistration ex_platform s = Inr s'"
    by (rule FinishRegistration_total) (simp_all add: s(4,5) ex_platform_simps)
  then obtain s' where f: "FinishRegistration ex_platform s = Inr s'" ..
  have b0: "serial_byte_size s \<noteq> 0" by (simp add: s(3))
  from descriptor_chain_shape[OF f, of ex_AddOutput] obtain cbs where
    c: "alloced_mem s' = Some cbs"
    "int (length cbs)
       = \<lceil>real_of_int (bytes_to_gpio_ops (serial_byte_size s)) / real_of_int kMaxOpsPerBlock\<rceil>"
    "reachable ex_AddOutput s \<and> serial_byte_size s \<noteq> 0 \<longrightarrow>
        int (length cbs)
          = \<lceil>real_of_int (int (length (gpio_shadow s))) / real_of_int kMaxOpsPerBlock\<rceil>"
    "\<forall>i. Suc i < length cbs \<longrightarrow>
        next_cb (cbs ! i)
          = Some (UncachedMemBlock_to_physical ex_platform (int (Suc i) * int (sizeof_dma_cb ex_platform)))"
    "next_cb (last cbs) = Some 0"
    by blast
  have "int (length cbs) = (bytes_to_gpio_ops (serial_byte_size s) + 4095) div 4096"
    using c(2) by (simp only: ceiling_blocks)
  then have l: "length cbs = 2"
    by (simp add: s(5))
  have c3: "int (length cbs)
          = \<lceil>real_of_int (int (length (gpio_shadow s))) / real_of_int kMaxOpsPerBlock\<rceil>"
    using c(3) s(2) b0 by simp
  have n0: "next_cb (cbs ! 0) = Some (UncachedMemBlock_to_physical ex_platform (int (Suc 0) * int (sizeof_dma_cb ex_platform)))"
    using c(4) l by simp
  then have n1: "next_cb (cbs ! 0) = Some 0xC0000020"
    by (simp add: ex_platform_simps)
  show "\<exists>s s' cbs. RegisterDataGPIO ex_AddOutput ex_heap engine0 23 256 = Inr (True, s) \<and>
     reachable ex_AddOutput s \<and> serial_byte_size s \<noteq> 0 \<and>
     FinishRegistration ex_platform s = Inr s' \<and>
     alloced_mem s' = Some cbs \<and>
     int (length cbs)
       = \<lceil>real_of_int (bytes_to_gpio_ops (serial_byte_size s)) / real_of_int kMaxOpsPerBlock\<rceil> \<and>
     int (length cbs)
       = \<lceil>real_of_int (int (length (gpio_shadow s))) / real_of_int kMaxOpsPerBlock\<rceil> \<and>
     length cbs = 2 \<and>
     next_cb (cbs ! 0) = Some (UncachedMemBlock_to_physical ex_platform (int (Suc 0) * int (sizeof_dma_cb ex_platform))) \<and>
     next_cb (cbs ! 0) = Some 0xC0000020 \<and>
     next_cb (last cbs) = Some 0"
    by (intro exI[of _ s] exI[of _ s'] exI[of _ cbs] conjI s(1,2) b0 f c(1,2) c3 l n0 n1 c(5))
next
  obtain s' where f: "FinishRegistration ex_platform engine0 = Inr s'"
    using engine0_finish ..
  have z: "serial_byte_size engine0 = 0" by (simp add: engine0_def)
  from descriptor_chain_shape[OF f, of ex_AddOutput] obtain cbs where
    c: "alloced_mem s' = Some cbs"
    "reachable ex_AddOutput engine0 \<and> serial_byte_size engine0 = 0
       \<longrightarrow> gpio_shadow engine0 = [] \<and> length cbs = 1"
    "next_cb (last cbs) = Some 0"
    by blast
  from c(2) engine0_reachable z have e: "gpio_shadow engine0 = []" "length cbs = 1"
    by simp_all
  show "\<exists>s' cbs. reachable ex_AddOutput engine0 \<and> serial_byte_size engine0 = 0 \<and>
     FinishRegistration ex_platform engine0 = Inr s' \<and>
     alloced_mem s' = Some cbs \<and>
     gpio_shadow engine0 = [] \<and> length cbs = 1 \<and> next_cb (last cbs) = Some 0"
    by (intro exI[of _ s'] exI[of _ cbs] conjI engine0_reachable z f c(1) e c(3))
qed

text \<open>
  C7 as stated fails: the engine as constructed, with no channel registered, is
  reachable and its timeline has no slot, so that the ceiling of the number of slots
  divided by \<^verbatim>\<open>kMaxOpsPerBlock\<close> is 0, and \<^verbatim>\<open>FinishRegistration\<close> builds one control
  block for it.
\<close>

theorem descriptor_chain_shape_counterexample:
  "\<exists>s' cbs. reachable ex_AddOutput engine0 \<and> length (gpio_shadow engine0) = 0 \<and>
     FinishRegistration ex_platform engine0 = Inr s' \<and> alloced_mem s' = Some cbs \<and>
     length cbs = 1 \<and>
     \<lceil>real_of_int (int (length (gpio_shadow engine0))) / real_of_int kMaxOpsPerBlock\<rceil> = 0 \<and>
     int (length cbs)
       \<noteq> \<lceil>real_of_int (int (length (gpio_shadow engine0))) / real_of_int kMaxOpsPerBlock\<rceil>"
proof -
  obtain s' where f: "FinishRegistration ex_platform engine0 = Inr s'"
    using engine0_finish ..
  from f obtain cbs where C: "alloced_mem s' = Some cbs"
    "int (length cbs) = (bytes_to_gpio_ops (serial_byte_size engine0) + 4095) div 4096"
    by (rule FinishRegistration_chain) blast
  have z: "serial_byte_size engine0 = 0" by (simp add: engine0_def)
  have l: "length cbs = 1"
    using C(2) by (simp add: z ops_zero)
  have e: "length (gpio_shadow engine0) = 0"
    by (simp add: engine0_def)
  have c: "\<lceil>real_of_int (int (length (gpio_shadow engine0))) / real_of_int kMaxOpsPerBlock\<rceil> = 0"
    by (simp add: e)
  have n: "int (length cbs)
       \<noteq> \<lceil>real_of_int (int (length (gpio_shadow engine0))) / real_of_int kMaxOpsPerBlock\<rceil>"
    by (simp only: c l)
  show ?thesis
    by (intro exI[of _ s'] exI[of _ cbs] conjI engine0_reachable e f C(1) l c n)
qed

lemma engine1_finish: "\<exists>s'. FinishRegistration ex_platform engine1 = Inr s'"
  by (rule FinishRegistration_total)
     (simp_all add: engine1_def ops_one ex_platform_simps)

theorem descriptor_stride_witness:
  "\<exists>s' cbs. FinishRegistration ex_platform engine1 = Inr s' \<and> alloced_mem s' = Some cbs \<and>
     (\<forall>cb \<in> set cbs. stride_d cb = - int sizeof_GPIOData \<and> stride_s cb = 0 \<and>
         length_x cb = sizeof_GPIOData \<and> dst cb = PHYSICAL_GPIO_BUS + GPIO_SET_OFFSET) \<and>
     GPIO_SET_OFFSET + word_of_nat offsetof_clr = GPIO_CLR_OFFSET \<and>
     offsetof_clr < sizeof_GPIOData"
proof -
  obtain s' where f: "FinishRegistration ex_platform engine1 = Inr s'"
    using engine1_finish ..
  from descriptor_stride[OF f] f show ?thesis by blast
qed

text \<open>
  C8 as stated fails: the control block built for the concrete engine has the
  destination stride \<open>- 16\<close>, while the negated distance from the pin-set register to
  the pin-clear register is \<open>- 12\<close>.
\<close>

theorem descriptor_stride_counterexample:
  "\<exists>s' cbs. FinishRegistration ex_platform engine1 = Inr s' \<and> alloced_mem s' = Some cbs \<and>
     cbs \<noteq> [] \<and> stride_d (hd cbs) = - 16 \<and>
     - (uint GPIO_CLR_OFFSET - uint GPIO_SET_OFFSET) = - 12 \<and>
     stride_d (hd cbs) \<noteq> - (uint GPIO_CLR_OFFSET - uint GPIO_SET_OFFSET)"
proof -
  obtain s' where f: "FinishRegistration ex_platform engine1 = Inr s'"
    using engine1_finish ..
  from f obtain cbs where C: "alloced_mem s' = Some cbs" "cbs \<noteq> []"
    "\<And>j. j < length cbs \<Longrightarrow> stride_d (cbs ! j) = - 16 \<and> stride_s (cbs ! j) = 0 \<and>
        length_x (cbs ! j) = sizeof_GPIOData \<and> dst (cbs ! j) = PHYSICAL_GPIO_BUS + GPIO_SET_OFFSET"
    by (rule FinishRegistration_chain) blast
  have "stride_d (cbs ! 0) = - 16"
    using C(2) C(3)[of 0] by simp
  then have h: "stride_d (hd cbs) = - 16"
    using C(2) by (simp add: hd_conv_nth)
  have d: "- (uint GPIO_CLR_OFFSET - uint GPIO_SET_OFFSET) = - 12"
    by (simp add: GPIO_CLR_OFFSET_def GPIO_SET_OFFSET_def)
  have "stride_d (hd cbs) \<noteq> - (uint GPIO_CLR_OFFSET - uint GPIO_SET_OFFSET)"
    by (simp only: h d)
  with f C(1,2) h d show ?thesis by blast
qed

section \<open>The transfer driver\<close>

lemma poll_loop_terminates:
  assumes "cs_reads (k + 2 * m) AND DMA_CS_ACTIVE K = 0
           \<or> cs_reads (k + 2 * m + 1) AND DMA_CS_ERROR K \<noteq> 0"
  shows "\<exists>ex n. poll_loop K cs_reads k sleeps = Some (ex, n)"
  using assms
proof (induction m arbitrary: k sleeps)
  case 0
  then show ?case
    by (subst poll_loop.simps) auto
next
  case (Suc m)
  have "\<exists>ex n. poll_loop K cs_reads (k + 2) (sleeps + 1) = Some (ex, n)"
    using Suc.prems by (intro Suc.IH) (simp add: add.commute add.left_commute)
  then show ?case
    by (subst poll_loop.simps) auto
qed

lemma FinishRegistration_dma:
  assumes "FinishRegistration P s = Inr s'"
  shows "gpio_dma s' = Some (map (uncached_fill P) [0 ..< nat (bytes_to_gpio_ops (serial_byte_size s))])"
  using assms by (auto simp: FinishRegistration_def Let_def split: if_splits)

lemma SendBuffers_result:
  assumes "(if gpio_dma s = None then FinishRegistration P s else Inr s) = Inr s1"
    and "memcpy_dma s1 = Inr s2"
    and "poll_loop K cs_reads 0 0 = Some (ex, sleeps)"
  shows "SendBuffers P K cs_reads s
     = Some (Inr (start_actions P K @ replicate sleeps (Usleep 10) @ teardown_actions K, s2))"
  using assms by (simp add: SendBuffers_def)

text \<open>
  C9. When the preparation of a send has succeeded and the poll loop ends, after
  \<open>sleeps\<close> sleeps and for either reason, \<^verbatim>\<open>SendBuffers\<close> returns, and what it has done
  after the start is the sleeps of the loop and then abort, the sleep of 100
  microseconds, the clearing of the active bit and the reset. Neither the actions nor
  the engine object it leaves depend on the reason of the exit: a run that ends on the
  error bit and a run that ends on the cleared active bit after the same number of
  sleeps give the same result.
\<close>

theorem send_teardown_unconditional:
  assumes "(if gpio_dma s = None then FinishRegistration P s else Inr s) = Inr s1"
    and "memcpy_dma s1 = Inr s2"
    and "poll_loop K cs_reads 0 0 = Some (ex, sleeps)"
  shows "SendBuffers P K cs_reads s
      = Some (Inr (start_actions P K @ replicate sleeps (Usleep 10)
                   @ [Cs_or (DMA_CS_ABORT K), Usleep 100, Cs_and (NOT (DMA_CS_ACTIVE K)),
                      Cs_or (DMA_CS_RESET K)], s2)) \<and>
    (\<forall>cs_reads' ex'. poll_loop K cs_reads' 0 0 = Some (ex', sleeps) \<longrightarrow>
        SendBuffers P K cs_reads' s = SendBuffers P K cs_reads s)"
proof (intro conjI allI impI)
  show "SendBuffers P K cs_reads s
      = Some (Inr (start_actions P K @ replicate sleeps (Usleep 10)
                   @ [Cs_or (DMA_CS_ABORT K), Usleep 100, Cs_and (NOT (DMA_CS_ACTIVE K)),
                      Cs_or (DMA_CS_RESET K)], s2))"
    using SendBuffers_result[OF assms] by (simp add: teardown_actions_def)
next
  fix cs_reads' ex'
  assume "poll_loop K cs_reads' 0 0 = Some (ex', sleeps)"
  then show "SendBuffers P K cs_reads' s = SendBuffers P K cs_reads s"
    using SendBuffers_result[OF assms] SendBuffers_result[OF assms(1,2), of K cs_reads' ex' sleeps]
    by simp
qed

lemma poll_completed: "poll_loop ex_consts reads_completed 0 0 = Some (Completed, 0)"
  by (subst poll_loop.simps) (simp add: ex_consts_def reads_completed_def)

lemma poll_errored: "poll_loop ex_consts reads_errored 0 0 = Some (Errored, 0)"
  by (subst poll_loop.simps) (simp add: ex_consts_def reads_errored_def)

theorem send_teardown_unconditional_witness:
  "\<exists>s1 s2. FinishRegistration ex_platform engine1 = Inr s1 \<and> memcpy_dma s1 = Inr s2 \<and>
     poll_loop ex_consts reads_completed 0 0 = Some (Completed, 0) \<and>
     poll_loop ex_consts reads_errored 0 0 = Some (Errored, 0) \<and>
     SendBuffers ex_platform ex_consts reads_completed engine1
       = Some (Inr (start_actions ex_platform ex_consts @ replicate 0 (Usleep 10)
                   @ [Cs_or (DMA_CS_ABORT ex_consts), Usleep 100,
                      Cs_and (NOT (DMA_CS_ACTIVE ex_consts)),
                      Cs_or (DMA_CS_RESET ex_consts)], s2)) \<and>
     SendBuffers ex_platform ex_consts reads_errored engine1
       = SendBuffers ex_platform ex_consts reads_completed engine1"
proof -
  obtain s1 where f: "FinishRegistration ex_platform engine1 = Inr s1"
    using engine1_finish ..
  have d: "gpio_dma s1 = Some (map (uncached_fill ex_platform) [0 ..< 17])"
    using FinishRegistration_dma[OF f] by (simp add: engine1_def ops_one)
  have k: "gpio_shadow s1 = gpio_shadow engine1" "gpio_buffer_size s1 = gpio_buffer_size engine1"
    using FinishRegistration_shadow[OF f] by simp_all
  have bs: "gpio_buffer_size s1 = Some 272"
    using k(2) by (simp add: engine1_def)
  have ls: "length (gpio_shadow s1) = 17"
    using k(1) by (simp add: engine1_def)
  have "\<exists>s2. memcpy_dma s1 = Inr s2"
    unfolding memcpy_dma_def bs d by (simp add: ls sizeof_GPIOData_def Let_def)
  then obtain s2 where m: "memcpy_dma s1 = Inr s2" ..
  have p: "(if gpio_dma engine1 = None then FinishRegistration ex_platform engine1 else Inr engine1)
            = Inr s1"
    using f by (simp add: engine1_def)
  note t = send_teardown_unconditional[OF p m poll_completed]
  have e: "SendBuffers ex_platform ex_consts reads_errored engine1
       = SendBuffers ex_platform ex_consts reads_completed engine1"
    using conjunct2[OF t] poll_errored by blast
  show ?thesis
    by (intro exI[of _ s1] exI[of _ s2] conjI f m poll_completed poll_errored conjunct1[OF t] e)
qed

end
